theory Spec2Isabelle
  imports Main "HOL-Library.AList" "HOL-Library.List_Lexorder" "HOL-Library.Char_ord"
    "HOL-Library.Multiset"
begin

section \<open>Run-time panics\<close>

text \<open>
  The three ways the modelled code can panic: slicing with a negative bound, assigning
  to an entry of a nil map, and reading a field through a nil pointer.
\<close>

datatype panic = SliceBoundsOutOfRange | AssignmentToNilMap | NilPointerDereference

section \<open>Vector clocks (package clock)\<close>

text \<open>
  \<^verbatim>\<open>type VectorClock map[string]int64\<close>. A clock is \<open>None\<close>, the nil map (what an absent
  or null JSON clock decodes to), or \<open>Some\<close> association list read as a Go map. \<open>vc_get\<close>
  is the read \<^verbatim>\<open>vc[k]\<close> (an absent key, and every key of the nil map, reads as zero),
  \<open>vc_put\<close> is the assignment \<^verbatim>\<open>vc[k] = v\<close>, which panics on the nil map, and \<open>vc_range\<close>
  lists the entries that \<^verbatim>\<open>for k, v := range vc\<close> visits (one entry per key, none for
  the nil map). Go visits them in an unspecified order; the model visits them in list
  order. Counters are \<open>int\<close>; the only arithmetic on them is in \<open>Increment\<close>, where the
  wrap-around of \<^verbatim>\<open>int64\<close> is written out.
\<close>

type_synonym VectorClock = "(string \<times> int) list option"

definition NewVectorClock :: VectorClock where
  "NewVectorClock = Some []"

definition vc_get :: "VectorClock \<Rightarrow> string \<Rightarrow> int" where
  "vc_get vc k =
     (case vc of
        None \<Rightarrow> 0
      | Some al \<Rightarrow> (case map_of al k of None \<Rightarrow> 0 | Some v \<Rightarrow> v))"

definition vc_put :: "VectorClock \<Rightarrow> string \<Rightarrow> int \<Rightarrow> panic + VectorClock" where
  "vc_put vc k v =
     (case vc of
        None \<Rightarrow> Inl AssignmentToNilMap
      | Some al \<Rightarrow> Inr (Some (AList.update k v al)))"

definition vc_range :: "VectorClock \<Rightarrow> (string \<times> int) list" where
  "vc_range vc = (case vc of None \<Rightarrow> [] | Some al \<Rightarrow> AList.clearjunk al)"

definition wrap64 :: "int \<Rightarrow> int" where
  "wrap64 x = (x + 2 ^ 63) mod 2 ^ 64 - 2 ^ 63"

definition Increment :: "VectorClock \<Rightarrow> string \<Rightarrow> panic + VectorClock" where
  "Increment vc clientID = vc_put vc clientID (wrap64 (vc_get vc clientID + 1))"

text \<open>
  \<^verbatim>\<open>Update\<close>: \<open>updateStep\<close> is the body of the loop over the entries of \<open>other\<close>,
  \<open>updateLoop\<close> the loop. On a nil receiver the first entry that has to be written
  panics; when nothing has to be written the loop ends and the receiver is still nil.
\<close>

definition updateStep :: "string \<times> int \<Rightarrow> VectorClock \<Rightarrow> panic + VectorClock" where
  "updateStep e vc =
     (case e of (clientID, timestamp) \<Rightarrow>
        if vc_get vc clientID < timestamp then vc_put vc clientID timestamp else Inr vc)"

fun updateLoop :: "(string \<times> int) list \<Rightarrow> VectorClock \<Rightarrow> panic + VectorClock" where
  "updateLoop [] vc = Inr vc"
| "updateLoop (e # es) vc =
     (case updateStep e vc of Inl p \<Rightarrow> Inl p | Inr vc' \<Rightarrow> updateLoop es vc')"

definition Update :: "VectorClock \<Rightarrow> VectorClock \<Rightarrow> panic + VectorClock" where
  "Update vc other = updateLoop (vc_range other) vc"

definition Copy :: "VectorClock \<Rightarrow> VectorClock" where
  "Copy vc = Some (fold (\<lambda>(k, v) newVC. AList.update k v newVC) (vc_range vc) [])"

text \<open>
  \<^verbatim>\<open>Compare\<close>: \<open>allKeys\<close> is the key set the two \<^verbatim>\<open>range\<close> loops build
  (\<^verbatim>\<open>allKeys[k] = true\<close> adds a key once), \<open>compareFlags\<close> is the loop that sets
  \<^verbatim>\<open>hasLess\<close> and \<^verbatim>\<open>hasGreater\<close>, and \<open>Compare\<close> is the final decision. It only
  reads its operands, so a nil clock compares as an empty one.
\<close>

definition allKeys :: "VectorClock \<Rightarrow> VectorClock \<Rightarrow> string list" where
  "allKeys vc other =
     fold List.insert (map fst (vc_range other)) (fold List.insert (map fst (vc_range vc)) [])"

definition compareStep :: "VectorClock \<Rightarrow> VectorClock \<Rightarrow> string \<Rightarrow> bool \<times> bool \<Rightarrow> bool \<times> bool" where
  "compareStep vc other k flags =
     (case flags of (hasLess, hasGreater) \<Rightarrow>
        let v1 = vc_get vc k; v2 = vc_get other k
        in if v1 < v2 then (True, hasGreater)
           else if v1 > v2 then (hasLess, True)
           else (hasLess, hasGreater))"

definition compareFlags :: "VectorClock \<Rightarrow> VectorClock \<Rightarrow> bool \<times> bool" where
  "compareFlags vc other = fold (compareStep vc other) (allKeys vc other) (False, False)"

definition Compare :: "VectorClock \<Rightarrow> VectorClock \<Rightarrow> int" where
  "Compare vc other =
     (case compareFlags vc other of (hasLess, hasGreater) \<Rightarrow>
        if hasLess \<and> hasGreater then 0
        else if hasLess then - 1
        else if hasGreater then 1
        else 0)"

definition IsConcurrent :: "VectorClock \<Rightarrow> VectorClock \<Rightarrow> bool" where
  "IsConcurrent vc other = (Compare vc other = 0)"

definition HappensBefore :: "VectorClock \<Rightarrow> VectorClock \<Rightarrow> bool" where
  "HappensBefore vc other = (Compare vc other = - 1)"

section \<open>The replicated text (package crdt)\<close>

text \<open>
  Positions index the text by rune, so a text is a list of runes (code points) and
  \<open>Content\<close> is the rune sequence \<^verbatim>\<open>[]rune(op.Content)\<close>. \<open>Timestamp\<close> is the instant of
  the \<^verbatim>\<open>time.Time\<close> (\<^verbatim>\<open>Equal\<close> and \<^verbatim>\<open>Before\<close> compare instants). Client
  identifiers are compared as Go compares strings, byte by byte.
\<close>

type_synonym rune = nat

record Operation =
  ID :: string
  ClientID :: string
  Clock :: VectorClock
  Type :: string
  Position :: int
  Content :: "rune list"
  Timestamp :: int

record CRDT =
  Operations :: "Operation list"
  Text :: "rune list"
  CRDT_Clock :: VectorClock

definition NewCRDT :: CRDT where
  "NewCRDT = \<lparr>Operations = [], Text = [], CRDT_Clock = NewVectorClock\<rparr>"

text \<open>
  The comparison closure handed to \<^verbatim>\<open>sort.Slice\<close> in \<^verbatim>\<open>rebuildText\<close>.
\<close>

definition opLess :: "Operation \<Rightarrow> Operation \<Rightarrow> bool" where
  "opLess a b =
     (let cmp = Compare (Clock a) (Clock b)
      in if cmp = - 1 then True
         else if cmp = 1 then False
         else if Timestamp a \<noteq> Timestamp b then Timestamp a < Timestamp b
         else ClientID a < ClientID b)"

text \<open>
  \<^verbatim>\<open>sort.Slice\<close> belongs to Go's standard library. On a slice of at most 12 elements it
  runs (since Go 1.19) its insertion sort,
  \<^verbatim>\<open>for i := a + 1; i < b; i++ { for j := i; j > a && less(j, j-1); j-- { swap(j, j-1) } }\<close>,
  which is \<open>insertionSort\<close>: \<open>sift\<close> moves the new element leftwards through the already
  processed prefix (kept reversed, its last element first) while it is less than its left
  neighbour. A longer slice goes through the library's pattern-defeating quicksort. That
  procedure touches the slice only through \<^verbatim>\<open>swap(i, j)\<close>, so what it does to a long
  slice is a sequence of swaps, and which sequence is a parameter of the model: \<open>pdq lt xs\<close>
  is the list of swaps the library performs on the slice \<open>xs\<close> under the comparison \<open>lt\<close>
  (\<open>swapAt\<close> leaves the slice alone at an index outside it, which the library never
  asks for). Every function that reaches the sort carries this parameter.
\<close>

type_synonym 'a pdqsort = "('a \<Rightarrow> 'a \<Rightarrow> bool) \<Rightarrow> 'a list \<Rightarrow> (nat \<times> nat) list"

fun sift :: "('a \<Rightarrow> 'a \<Rightarrow> bool) \<Rightarrow> 'a \<Rightarrow> 'a list \<Rightarrow> 'a list" where
  "sift lt x [] = [x]"
| "sift lt x (y # ys) = (if lt x y then y # sift lt x ys else x # y # ys)"

definition insertionSort :: "('a \<Rightarrow> 'a \<Rightarrow> bool) \<Rightarrow> 'a list \<Rightarrow> 'a list" where
  "insertionSort lt xs = rev (fold (sift lt) xs [])"

definition swapAt :: "nat \<times> nat \<Rightarrow> 'a list \<Rightarrow> 'a list" where
  "swapAt ij xs =
     (case ij of (i, j) \<Rightarrow>
        if i < length xs \<and> j < length xs then xs[i := xs ! j, j := xs ! i] else xs)"

definition sort_Slice :: "'a pdqsort \<Rightarrow> ('a \<Rightarrow> 'a \<Rightarrow> bool) \<Rightarrow> 'a list \<Rightarrow> 'a list" where
  "sort_Slice pdq lt xs =
     (if length xs \<le> 12 then insertionSort lt xs else fold swapAt (pdq lt xs) xs)"

text \<open>
  The replay loop of \<^verbatim>\<open>rebuildText\<close>. Slicing \<^verbatim>\<open>text[:op.Position]\<close> with a negative
  position is a run-time panic (slice bounds out of range); the guards of the source only
  bound the position from above.
\<close>

definition replayOp :: "rune list \<Rightarrow> Operation \<Rightarrow> panic + rune list" where
  "replayOp text op =
     (if Type op = ''insert'' then
        (if Position op \<le> int (length text) then
           (if Position op < 0 then Inl SliceBoundsOutOfRange
            else Inr (take (nat (Position op)) text @ Content op @ drop (nat (Position op)) text))
         else Inr text)
      else if Type op = ''delete'' then
        (if Position op < int (length text) then
           (if Position op < 0 then Inl SliceBoundsOutOfRange
            else Inr (take (nat (Position op)) text @ drop (nat (Position op + 1)) text))
         else Inr text)
      else Inr text)"

fun replay :: "rune list \<Rightarrow> Operation list \<Rightarrow> panic + rune list" where
  "replay text [] = Inr text"
| "replay text (op # ops) =
     (case replayOp text op of Inl p \<Rightarrow> Inl p | Inr text' \<Rightarrow> replay text' ops)"

definition rebuildText :: "Operation pdqsort \<Rightarrow> CRDT \<Rightarrow> panic + CRDT" where
  "rebuildText pdq c =
     (case replay [] (sort_Slice pdq opLess (Operations c)) of
        Inl p \<Rightarrow> Inl p
      | Inr text \<Rightarrow> Inr (c\<lparr>Text := text\<rparr>))"

text \<open>
  \<^verbatim>\<open>ApplyOperation\<close> always returns a nil error; what can go wrong is a panic, of the
  clock update on a nil clock or of the replay, so the result is a panic or the updated
  CRDT. The receiver is a CRDT, not a nil pointer.
\<close>

definition ApplyOperation :: "Operation pdqsort \<Rightarrow> CRDT \<Rightarrow> Operation \<Rightarrow> panic + CRDT" where
  "ApplyOperation pdq c op =
     (case Update (CRDT_Clock c) (Clock op) of
        Inl p \<Rightarrow> Inl p
      | Inr clock \<Rightarrow>
          rebuildText pdq (c\<lparr>CRDT_Clock := clock, Operations := Operations c @ [op]\<rparr>))"

fun ApplyOperations :: "Operation pdqsort \<Rightarrow> CRDT \<Rightarrow> Operation list \<Rightarrow> panic + CRDT" where
  "ApplyOperations pdq c [] = Inr c"
| "ApplyOperations pdq c (op # ops) =
     (case ApplyOperation pdq c op of
        Inl p \<Rightarrow> Inl p
      | Inr c' \<Rightarrow> ApplyOperations pdq c' ops)"

definition GetOperationsSince :: "CRDT \<Rightarrow> VectorClock \<Rightarrow> Operation list" where
  "GetOperationsSince c since =
     filter (\<lambda>op. \<not> HappensBefore (Clock op) since \<and> Compare (Clock op) since \<noteq> 0)
       (Operations c)"

text \<open>
  \<^verbatim>\<open>Merge\<close> takes the other CRDT by pointer: \<open>None\<close> is the nil pointer, and reading
  \<^verbatim>\<open>other.Operations\<close> through it panics.
\<close>

definition existingIDs :: "CRDT \<Rightarrow> string \<Rightarrow> bool" where
  "existingIDs c i = (i \<in> set (map ID (Operations c)))"

definition Merge :: "Operation pdqsort \<Rightarrow> CRDT \<Rightarrow> CRDT option \<Rightarrow> panic + CRDT" where
  "Merge pdq c other =
     (case other of
        None \<Rightarrow> Inl NilPointerDereference
      | Some other' \<Rightarrow>
          ApplyOperations pdq c
            (filter (\<lambda>op. \<not> existingIDs c (ID op)) (Operations other')))"

section \<open>Notes and the storage collaborator (packages models and store)\<close>

text \<open>
  \<open>Note_CRDT\<close> is a pointer: \<open>None\<close> is the nil pointer a note decoded from JSON
  without a \<^verbatim>\<open>crdt\<close> field carries.
\<close>

record Note =
  Note_ID :: string
  Title :: string
  Note_Content :: "rune list"
  Note_CRDT :: "CRDT option"
  Note_Clock :: VectorClock
  CreatedAt :: int
  UpdatedAt :: int
  DeletedAt :: "int option"

record Conflict =
  NoteID :: string
  ClientClock :: VectorClock
  ServerClock :: VectorClock
  Resolution :: string

record SyncRequest =
  Req_ClientID :: string
  Req_Notes :: "Note list"
  LastSync :: "string \<rightharpoonup> VectorClock"

record SyncResponse =
  Resp_Notes :: "Note list"
  Conflicts :: "Conflict list"
  Resp_Clock :: "(string \<times> VectorClock) list"

text \<open>
  The store keeps the \<^verbatim>\<open>notes\<close> table, one row per note id. What the database does is
  outside the repository, so it is an input of the model: \<open>getNoteFails\<close>,
  \<open>saveNoteFails\<close> and \<open>getAllNotesFails\<close> say which calls return an error, and
  \<open>orderRows\<close> is the order in which the database hands out the selected rows
  (\<^verbatim>\<open>ORDER BY updated_at DESC\<close>, on the column as the database stores it). A row holds
  the note as it was saved, under its id. \<^verbatim>\<open>SaveNote\<close> is an upsert whose update
  leaves \<^verbatim>\<open>created_at\<close> alone. Loading a row (\<open>decodeRow\<close>) takes the id from the key,
  and decodes the JSON columns: a nil CRDT was written as \<^verbatim>\<open>null\<close> and is read back by
  \<^verbatim>\<open>FromJSON\<close> as a pointer to the zero CRDT, whose clock is the nil map; a nil clock is
  read back nil.
\<close>

record Store =
  rows :: "(string \<times> Note) list"
  getNoteFails :: "string \<Rightarrow> bool"
  saveNoteFails :: "string \<Rightarrow> bool"
  getAllNotesFails :: bool
  orderRows :: "Note list \<Rightarrow> Note list"

datatype error =
    FailedToGetServerNote
  | FailedToSaveNewNote
  | FailedToUpdateNote
  | FailedToSaveMergedNote
  | FailedToGetServerNotes

datatype 'a outcome = Panics panic | Fails error | Returns 'a

definition zeroCRDT :: CRDT where
  "zeroCRDT = \<lparr>Operations = [], Text = [], CRDT_Clock = None\<rparr>"

definition decodeRow :: "string \<times> Note \<Rightarrow> Note" where
  "decodeRow row =
     (case row of (i, note) \<Rightarrow>
        note\<lparr>Note_ID := i,
             Note_CRDT := Some (case Note_CRDT note of None \<Rightarrow> zeroCRDT | Some c \<Rightarrow> c)\<rparr>)"

definition Store_GetNote :: "Store \<Rightarrow> string \<Rightarrow> unit + Note option" where
  "Store_GetNote s i =
     (if getNoteFails s i then Inl ()
      else Inr (map_option (\<lambda>note. decodeRow (i, note)) (map_of (rows s) i)))"

definition Store_SaveNote :: "Store \<Rightarrow> Note \<Rightarrow> unit + Store" where
  "Store_SaveNote s note =
     (if saveNoteFails s (Note_ID note) then Inl ()
      else Inr (s\<lparr>rows :=
        (case map_of (rows s) (Note_ID note) of
           None \<Rightarrow> rows s @ [(Note_ID note, note)]
         | Some old \<Rightarrow>
             AList.update (Note_ID note) (note\<lparr>CreatedAt := CreatedAt old\<rparr>) (rows s))\<rparr>))"

definition Store_GetAllNotes :: "Store \<Rightarrow> unit + Note list" where
  "Store_GetAllNotes s =
     (if getAllNotesFails s then Inl ()
      else Inr (orderRows s
                  (filter (\<lambda>n. DeletedAt n = None)
                     (map decodeRow (AList.clearjunk (rows s))))))"

section \<open>The synchronisation engine (package sync)\<close>

text \<open>
  \<open>mergeIntoServer\<close> is the sequence both merging branches of \<^verbatim>\<open>syncNote\<close> run on the
  stored note: merge the client's CRDT into the stored one, update the stored clock with
  the client's, take the content from the merged text and stamp the time. Each of the
  first two steps can panic.
\<close>

definition mergedNote :: "Note \<Rightarrow> CRDT \<Rightarrow> VectorClock \<Rightarrow> int \<Rightarrow> Note" where
  "mergedNote serverNote merged clock now =
     serverNote\<lparr>Note_CRDT := Some merged,
                 Note_Clock := clock,
                 Note_Content := Text merged,
                 UpdatedAt := now\<rparr>"

definition mergeIntoServer :: "Operation pdqsort \<Rightarrow> Note \<Rightarrow> Note \<Rightarrow> int \<Rightarrow> panic + Note" where
  "mergeIntoServer pdq serverNote clientNote now =
     (case Note_CRDT serverNote of
        None \<Rightarrow> Inl NilPointerDereference
      | Some serverCRDT \<Rightarrow>
          (case Merge pdq serverCRDT (Note_CRDT clientNote) of
             Inl p \<Rightarrow> Inl p
           | Inr merged \<Rightarrow>
               (case Update (Note_Clock serverNote) (Note_Clock clientNote) of
                  Inl p \<Rightarrow> Inl p
                | Inr clock \<Rightarrow> Inr (mergedNote serverNote merged clock now))))"

text \<open>
  \<^verbatim>\<open>syncNote\<close> returns a conflict or nil together with an error, or panics; the store
  is threaded through. \<open>now\<close> is the value \<^verbatim>\<open>time.Now()\<close> reads; the log lines are left
  out.
\<close>

definition syncNote ::
  "Operation pdqsort \<Rightarrow> Store \<Rightarrow> int \<Rightarrow> Note \<Rightarrow> string \<Rightarrow> VectorClock
     \<Rightarrow> Conflict option outcome \<times> Store" where
  "syncNote pdq s now clientNote clientID lastSync =
     (case Store_GetNote s (Note_ID clientNote) of
        Inl _ \<Rightarrow> (Fails FailedToGetServerNote, s)
      | Inr None \<Rightarrow>
          (case Store_SaveNote s (clientNote\<lparr>UpdatedAt := now\<rparr>) of
             Inl _ \<Rightarrow> (Fails FailedToSaveNewNote, s)
           | Inr s' \<Rightarrow> (Returns None, s'))
      | Inr (Some serverNote) \<Rightarrow>
          (let comparison = Compare (Note_Clock clientNote) (Note_Clock serverNote)
           in if comparison = - 1 then (Returns None, s)
              else if comparison = 1 then
                (case mergeIntoServer pdq serverNote clientNote now of
                   Inl p \<Rightarrow> (Panics p, s)
                 | Inr note \<Rightarrow>
                     (case Store_SaveNote s note of
                        Inl _ \<Rightarrow> (Fails FailedToUpdateNote, s)
                      | Inr s' \<Rightarrow> (Returns None, s')))
              else if comparison = 0 then
                (case mergeIntoServer pdq serverNote clientNote now of
                   Inl p \<Rightarrow> (Panics p, s)
                 | Inr note \<Rightarrow>
                     (case Store_SaveNote s note of
                        Inl _ \<Rightarrow> (Fails FailedToSaveMergedNote, s)
                      | Inr s' \<Rightarrow>
                          (Returns (Some \<lparr>NoteID = Note_ID clientNote,
                                          ClientClock = Note_Clock clientNote,
                                          ServerClock = Note_Clock note,
                                          Resolution = ''merged''\<rparr>), s')))
              else (Returns None, s)))"

text \<open>
  \<^verbatim>\<open>Sync\<close>: \<open>lastSyncOf\<close> is the read \<^verbatim>\<open>req.LastSync[id]\<close>, nil for an absent id;
  \<open>syncLoop\<close> is the loop over the client's notes, the \<open>i\<close>-th of which reads the time
  \<open>now i\<close>. An error of \<^verbatim>\<open>syncNote\<close> is logged and the loop continues with the next
  note; a panic ends the call.
\<close>

definition lastSyncOf :: "SyncRequest \<Rightarrow> string \<Rightarrow> VectorClock" where
  "lastSyncOf req i = (case LastSync req i of None \<Rightarrow> None | Some vc \<Rightarrow> vc)"

fun syncLoop ::
  "Operation pdqsort \<Rightarrow> Store \<Rightarrow> (nat \<Rightarrow> int) \<Rightarrow> nat \<Rightarrow> SyncRequest \<Rightarrow> Note list
     \<Rightarrow> Conflict list \<Rightarrow> (panic + Conflict list) \<times> Store" where
  "syncLoop pdq s now i req [] conflicts = (Inr conflicts, s)"
| "syncLoop pdq s now i req (clientNote # notes) conflicts =
     (case syncNote pdq s (now i) clientNote (Req_ClientID req)
             (lastSyncOf req (Note_ID clientNote)) of
        (Panics p, s') \<Rightarrow> (Inl p, s')
      | (Fails e, s') \<Rightarrow> syncLoop pdq s' now (Suc i) req notes conflicts
      | (Returns None, s') \<Rightarrow> syncLoop pdq s' now (Suc i) req notes conflicts
      | (Returns (Some conflict), s') \<Rightarrow>
          syncLoop pdq s' now (Suc i) req notes (conflicts @ [conflict]))"

definition includeNote :: "SyncRequest \<Rightarrow> Note \<Rightarrow> bool" where
  "includeNote req serverNote =
     (let lastSync = lastSyncOf req (Note_ID serverNote)
      in lastSync = None \<or> Compare (Note_Clock serverNote) lastSync = 1)"

definition Sync ::
  "Operation pdqsort \<Rightarrow> Store \<Rightarrow> (nat \<Rightarrow> int) \<Rightarrow> SyncRequest
     \<Rightarrow> SyncResponse outcome \<times> Store" where
  "Sync pdq s now req =
     (case syncLoop pdq s now 0 req (Req_Notes req) [] of
        (Inl p, s') \<Rightarrow> (Panics p, s')
      | (Inr conflicts, s') \<Rightarrow>
          (case Store_GetAllNotes s' of
             Inl _ \<Rightarrow> (Fails FailedToGetServerNotes, s')
           | Inr serverNotes \<Rightarrow>
               (Returns \<lparr>Resp_Notes = filter (includeNote req) serverNotes,
                         Conflicts = conflicts,
                         Resp_Clock =
                           fold (\<lambda>n m. AList.update (Note_ID n) (Note_Clock n) m)
                             (filter (includeNote req) serverNotes) []\<rparr>, s')))"

section \<open>Auxiliary predicates and sample data\<close>

text \<open>
  An operation makes the replay panic exactly when it is an insert or a delete at a
  negative position. A CRDT is well-formed when its clock is not nil and none of its
  operations is of that kind, a note when its clock is not nil and it points to a
  well-formed CRDT, a store when every row is a well-formed note: the inputs on which
  nothing panics.
\<close>

definition negativePosition :: "Operation \<Rightarrow> bool" where
  "negativePosition op = ((Type op = ''insert'' \<or> Type op = ''delete'') \<and> Position op < 0)"

definition wfCRDT :: "CRDT \<Rightarrow> bool" where
  "wfCRDT c = (CRDT_Clock c \<noteq> None \<and> (\<forall>op\<in>set (Operations c). \<not> negativePosition op))"

definition wfNote :: "Note \<Rightarrow> bool" where
  "wfNote n =
     (Note_Clock n \<noteq> None \<and> (case Note_CRDT n of None \<Rightarrow> False | Some c \<Rightarrow> wfCRDT c))"

definition wfStore :: "Store \<Rightarrow> bool" where
  "wfStore s = (\<forall>n\<in>snd ` set (rows s). wfNote n)"

text \<open>
  \<open>strictLinearOn lt S\<close>: the comparison \<open>lt\<close> orders the elements of \<open>S\<close> strictly and
  totally, which is what a sort needs from it. \<open>descending\<close> is the shape of the
  reversed prefix that \<open>sift\<close> works on.
\<close>

definition strictLinearOn :: "('a \<Rightarrow> 'a \<Rightarrow> bool) \<Rightarrow> 'a set \<Rightarrow> bool" where
  "strictLinearOn lt S =
     ((\<forall>a\<in>S. \<not> lt a a)
      \<and> (\<forall>a\<in>S. \<forall>b\<in>S. \<forall>c\<in>S. lt a b \<longrightarrow> lt b c \<longrightarrow> lt a c)
      \<and> (\<forall>a\<in>S. \<forall>b\<in>S. a \<noteq> b \<longrightarrow> lt a b \<or> lt b a))"

definition descending :: "('a \<Rightarrow> 'a \<Rightarrow> bool) \<Rightarrow> 'a list \<Rightarrow> bool" where
  "descending lt r = sorted_wrt (\<lambda>a b. \<not> lt a b) r"

text \<open>
  The sample logs below hold at most 12 operations, so the sort never asks for the
  swaps of a long slice; \<open>noSwaps\<close> stands in for the parameter.
\<close>

definition noSwaps :: "Operation pdqsort" where
  "noSwaps lt xs = []"

text \<open>
  Three operations by three clients, each inserting one rune at position 0: \<open>opA\<close> by
  client A, \<open>opB\<close> by client B, who has seen nothing, and \<open>opC\<close> by client C, who has seen
  \<open>opA\<close> and whose wall clock runs behind.
\<close>

definition opA :: Operation where
  "opA = \<lparr>ID = ''A-1'', ClientID = ''A'', Clock = Some [(''A'', 1)], Type = ''insert'',
           Position = 0, Content = [97], Timestamp = 3\<rparr>"

definition opB :: Operation where
  "opB = \<lparr>ID = ''B-1'', ClientID = ''B'', Clock = Some [(''B'', 1)], Type = ''insert'',
           Position = 0, Content = [98], Timestamp = 2\<rparr>"

definition opC :: Operation where
  "opC = \<lparr>ID = ''C-1'', ClientID = ''C'', Clock = Some [(''A'', 1), (''C'', 1)],
           Type = ''insert'', Position = 0, Content = [99], Timestamp = 1\<rparr>"

definition opNeg :: Operation where
  "opNeg = \<lparr>ID = ''A-1'', ClientID = ''A'', Clock = Some [(''A'', 1)], Type = ''insert'',
             Position = - 1, Content = [97], Timestamp = 3\<rparr>"

definition replicaA :: CRDT where
  "replicaA = \<lparr>Operations = [opA], Text = [97], CRDT_Clock = Some [(''A'', 1)]\<rparr>"

definition replicaB :: CRDT where
  "replicaB = \<lparr>Operations = [opB], Text = [98], CRDT_Clock = Some [(''B'', 1)]\<rparr>"

definition replicaAB :: CRDT where
  "replicaAB =
     \<lparr>Operations = [opA, opB], Text = [97, 98],
        CRDT_Clock = Some [(''A'', 1), (''B'', 1)]\<rparr>"

definition replicaC :: CRDT where
  "replicaC =
     \<lparr>Operations = [opA, opC], Text = [99, 97],
        CRDT_Clock = Some [(''A'', 1), (''C'', 1)]\<rparr>"

definition mergedABC :: CRDT where
  "mergedABC = \<lparr>Operations = [opA, opB, opC], Text = [99, 97, 98],
                 CRDT_Clock = Some [(''A'', 1), (''B'', 1), (''C'', 1)]\<rparr>"

definition mergedACB :: CRDT where
  "mergedACB = \<lparr>Operations = [opA, opC, opB], Text = [98, 99, 97],
                 CRDT_Clock = Some [(''A'', 1), (''C'', 1), (''B'', 1)]\<rparr>"

text \<open>
  A stored note \<open>n1\<close> holding \<open>opA\<close> and \<open>opB\<close>, and three client copies of it: one that
  is behind, one that is concurrent (it holds \<open>opA\<close> and \<open>opC\<close>), and an empty one. The
  stores differ in which calls fail; all hand out the selected rows as they are.
\<close>

definition serverNote1 :: Note where
  "serverNote1 = \<lparr>Note_ID = ''n1'', Title = ''note'', Note_Content = [97, 98],
                   Note_CRDT = Some replicaAB, Note_Clock = Some [(''A'', 1), (''B'', 1)],
                   CreatedAt = 1, UpdatedAt = 4, DeletedAt = None\<rparr>"

definition serverNoteMerged :: Note where
  "serverNoteMerged = \<lparr>Note_ID = ''n1'', Title = ''note'', Note_Content = [99, 97, 98],
                   Note_CRDT = Some mergedABC,
                   Note_Clock = Some [(''A'', 1), (''B'', 1), (''C'', 1)],
                   CreatedAt = 1, UpdatedAt = 7, DeletedAt = None\<rparr>"

definition serverNoteNeg :: Note where
  "serverNoteNeg = \<lparr>Note_ID = ''n1'', Title = ''note'', Note_Content = [97, 98],
                     Note_CRDT = Some replicaAB, Note_Clock = Some [(''A'', - 3), (''B'', 1)],
                     CreatedAt = 1, UpdatedAt = 4, DeletedAt = None\<rparr>"

definition clientBehind :: Note where
  "clientBehind = \<lparr>Note_ID = ''n1'', Title = ''note'', Note_Content = [97],
                    Note_CRDT = Some replicaA, Note_Clock = Some [(''A'', 1)],
                    CreatedAt = 1, UpdatedAt = 3, DeletedAt = None\<rparr>"

definition clientConcurrent :: Note where
  "clientConcurrent = \<lparr>Note_ID = ''n1'', Title = ''note'', Note_Content = [99, 97],
                        Note_CRDT = Some replicaC, Note_Clock = Some [(''A'', 1), (''C'', 1)],
                        CreatedAt = 1, UpdatedAt = 5, DeletedAt = None\<rparr>"

definition clientEmpty :: Note where
  "clientEmpty = \<lparr>Note_ID = ''n1'', Title = ''note'', Note_Content = [],
                   Note_CRDT = Some NewCRDT, Note_Clock = Some [],
                   CreatedAt = 1, UpdatedAt = 5, DeletedAt = None\<rparr>"

definition conflict1 :: Conflict where
  "conflict1 = \<lparr>NoteID = ''n1'', ClientClock = Some [(''A'', 1), (''C'', 1)],
                 ServerClock = Some [(''A'', 1), (''B'', 1), (''C'', 1)],
                 Resolution = ''merged''\<rparr>"

definition asSelected :: "Note list \<Rightarrow> Note list" where
  "asSelected ns = ns"

definition store1 :: Store where
  "store1 = \<lparr>rows = [(''n1'', serverNote1)], getNoteFails = (\<lambda>i. False),
              saveNoteFails = (\<lambda>i. False), getAllNotesFails = False,
              orderRows = asSelected\<rparr>"

definition store1Merged :: Store where
  "store1Merged = \<lparr>rows = [(''n1'', serverNoteMerged)], getNoteFails = (\<lambda>i. False),
                    saveNoteFails = (\<lambda>i. False), getAllNotesFails = False,
                    orderRows = asSelected\<rparr>"

definition storeNeg :: Store where
  "storeNeg = \<lparr>rows = [(''n1'', serverNoteNeg)], getNoteFails = (\<lambda>i. False),
                saveNoteFails = (\<lambda>i. False), getAllNotesFails = False,
                orderRows = asSelected\<rparr>"

definition storeSaveFails :: Store where
  "storeSaveFails = \<lparr>rows = [(''n1'', serverNote1)], getNoteFails = (\<lambda>i. False),
                      saveNoteFails = (\<lambda>i. True), getAllNotesFails = False,
                      orderRows = asSelected\<rparr>"

definition storeGetFails :: Store where
  "storeGetFails = \<lparr>rows = [(''n1'', serverNote1)], getNoteFails = (\<lambda>i. True),
                     saveNoteFails = (\<lambda>i. False), getAllNotesFails = False,
                     orderRows = asSelected\<rparr>"

definition storeAllFail :: Store where
  "storeAllFail = \<lparr>rows = [(''n1'', serverNote1)], getNoteFails = (\<lambda>i. True),
                    saveNoteFails = (\<lambda>i. True), getAllNotesFails = True,
                    orderRows = asSelected\<rparr>"

definition clock7 :: "nat \<Rightarrow> int" where
  "clock7 i = 7"

definition request1 :: SyncRequest where
  "request1 = \<lparr>Req_ClientID = ''C'', Req_Notes = [clientConcurrent], LastSync = Map.empty\<rparr>"

definition response1 :: SyncResponse where
  "response1 = \<lparr>Resp_Notes = [serverNote1], Conflicts = [],
                 Resp_Clock = [(''n1'', Some [(''A'', 1), (''B'', 1)])]\<rparr>"

section \<open>Properties of the vector clock\<close>

lemma set_fold_insert: "set (fold List.insert xs ys) = set xs \<union> set ys"
  by (induction xs arbitrary: ys) auto

lemma set_allKeys: "set (allKeys a b) = fst ` set (vc_range a) \<union> fst ` set (vc_range b)"
  by (auto simp: allKeys_def set_fold_insert)

lemma vc_get_range:
  "vc_get vc k = (case map_of (vc_range vc) k of None \<Rightarrow> 0 | Some v \<Rightarrow> v)"
  by (cases vc) (simp_all add: vc_get_def vc_range_def map_of_clearjunk)

lemma vc_get_absent: "k \<notin> fst ` set (vc_range vc) \<Longrightarrow> vc_get vc k = 0"
proof -
  assume "k \<notin> fst ` set (vc_range vc)"
  then have "map_of (vc_range vc) k = None" by (simp add: map_of_eq_None_iff)
  then show ?thesis by (simp add: vc_get_range)
qed

lemma fold_compareStep:
  "fold (compareStep a b) ks (l, g) =
     (l \<or> (\<exists>k\<in>set ks. vc_get a k < vc_get b k), g \<or> (\<exists>k\<in>set ks. vc_get b k < vc_get a k))"
  by (induction ks arbitrary: l g) (auto simp: compareStep_def Let_def)

lemma compareFlags_eq:
  "compareFlags a b =
     (\<exists>k\<in>fst ` set (vc_range a) \<union> fst ` set (vc_range b). vc_get a k < vc_get b k,
      \<exists>k\<in>fst ` set (vc_range a) \<union> fst ` set (vc_range b). vc_get b k < vc_get a k)"
  unfolding compareFlags_def fold_compareStep set_allKeys by simp

lemma differing_key:
  "vc_get a k \<noteq> vc_get b k \<Longrightarrow> k \<in> fst ` set (vc_range a) \<union> fst ` set (vc_range b)"
proof (rule ccontr)
  assume d: "vc_get a k \<noteq> vc_get b k"
    and "k \<notin> fst ` set (vc_range a) \<union> fst ` set (vc_range b)"
  then have "vc_get a k = 0" "vc_get b k = 0" by (simp_all add: vc_get_absent)
  with d show False by simp
qed

lemma compareFlags_all:
  "compareFlags a b = (\<exists>k. vc_get a k < vc_get b k, \<exists>k. vc_get b k < vc_get a k)"
proof -
  have "(\<exists>k\<in>fst ` set (vc_range a) \<union> fst ` set (vc_range b). vc_get a k < vc_get b k)
          = (\<exists>k. vc_get a k < vc_get b k)"
    using differing_key [of a _ b] by (metis less_irrefl)
  moreover
  have "(\<exists>k\<in>fst ` set (vc_range a) \<union> fst ` set (vc_range b). vc_get b k < vc_get a k)
          = (\<exists>k. vc_get b k < vc_get a k)"
    using differing_key [of a _ b] by (metis less_irrefl)
  ultimately show ?thesis unfolding compareFlags_eq by simp
qed

lemma Compare_range: "Compare a b = 0 \<or> Compare a b = - 1 \<or> Compare a b = 1"
  by (auto simp: Compare_def split: prod.splits)

text \<open>
  C2. \<open>Compare a b\<close> looks at the union \<open>K\<close> of the keys of both clocks, an absent key
  reading as zero. With \<open>L\<close> "some key is strictly smaller in \<open>a\<close>" and \<open>G\<close> "some key is
  strictly smaller in \<open>b\<close>", the result is 0 when both hold, \<open>-1\<close> when only \<open>L\<close> holds,
  1 when only \<open>G\<close> holds and 0 when neither holds, which is the case exactly when the two
  clocks read the same at every key.
\<close>

theorem Compare_spec:
  fixes a b :: VectorClock
  defines "K \<equiv> fst ` set (vc_range a) \<union> fst ` set (vc_range b)"
  defines "L \<equiv> \<exists>k\<in>K. vc_get a k < vc_get b k"
  defines "G \<equiv> \<exists>k\<in>K. vc_get b k < vc_get a k"
  shows "Compare a b = (if L \<and> G then 0 else if L then - 1 else if G then 1 else 0)
         \<and> ((\<not> L \<and> \<not> G) = (\<forall>k. vc_get a k = vc_get b k))"
proof -
  have "(L, G) = (\<exists>k. vc_get a k < vc_get b k, \<exists>k. vc_get b k < vc_get a k)"
    using compareFlags_eq [of a b] compareFlags_all [of a b]
    unfolding L_def G_def K_def by simp
  then have "L = (\<exists>k. vc_get a k < vc_get b k)" "G = (\<exists>k. vc_get b k < vc_get a k)"
    by simp_all
  then have "(\<not> L \<and> \<not> G) = (\<forall>k. vc_get a k = vc_get b k)"
    by (metis less_irrefl linorder_neqE)
  moreover have "Compare a b = (if L \<and> G then 0 else if L then - 1 else if G then 1 else 0)"
    unfolding Compare_def compareFlags_eq L_def G_def K_def by simp
  ultimately show ?thesis by simp
qed

theorem Compare_spec_witness:
  "Compare (Some [(''client1'', 5), (''client2'', 2)]) (Some [(''client1'', 3), (''client2'', 7)]) = 0
   \<and> Compare (Some [(''client1'', 1)]) (Some [(''client1'', 2), (''client2'', 3)]) = - 1
   \<and> Compare (Some [(''client1'', 5)]) (Some [(''client1'', 3)]) = 1
   \<and> Compare (Some [(''client1'', 3)]) (Some [(''client1'', 3), (''client2'', 0)]) = 0
   \<and> Compare None (Some [(''client1'', 3)]) = - 1"
  using
    Compare_spec [of "Some [(''client1'', 5), (''client2'', 2)]"
      "Some [(''client1'', 3), (''client2'', 7)]"]
    Compare_spec [of "Some [(''client1'', 1)]" "Some [(''client1'', 2), (''client2'', 3)]"]
    Compare_spec [of "Some [(''client1'', 5)]" "Some [(''client1'', 3)]"]
    Compare_spec [of "Some [(''client1'', 3)]" "Some [(''client1'', 3), (''client2'', 0)]"]
    Compare_spec [of None "Some [(''client1'', 3)]"]
  by (simp add: vc_get_def vc_range_def AList.delete_eq)

lemma updateLoop_Some: "\<exists>al'. updateLoop es (Some al) = Inr (Some al')"
  by (induction es arbitrary: al) (auto simp: updateStep_def vc_put_def)


lemma Update_Some: "\<exists>al'. Update (Some al) other = Inr (Some al')"
  by (simp add: Update_def updateLoop_Some)

lemma Update_not_nil: "vc \<noteq> None \<Longrightarrow> \<exists>al'. Update vc other = Inr (Some al')"
  using Update_Some by (cases vc) auto



lemma vc_get_put:
  "vc_put vc k v = Inr vc' \<Longrightarrow> vc_get vc' k' = (if k' = k then v else vc_get vc k')"
  by (cases vc) (auto simp: vc_get_def vc_put_def update_conv')

lemma vc_get_updateStep:
  "updateStep (k, t) vc = Inr vc' \<Longrightarrow>
     vc_get vc' k' = (if k' = k then max (vc_get vc k) t else vc_get vc k')"
  by (auto simp: updateStep_def max_def dest: vc_get_put split: if_splits)

lemma vc_get_updateLoop:
  "distinct (map fst es) \<Longrightarrow> updateLoop es vc = Inr vc' \<Longrightarrow>
     vc_get vc' k =
       (case map_of es k of None \<Rightarrow> vc_get vc k | Some t \<Rightarrow> max (vc_get vc k) t)"
proof (induction es arbitrary: vc)
  case Nil
  then show ?case by simp
next
  case (Cons e es)
  obtain k' t where e: "e = (k', t)" by (cases e)
  from Cons.prems e have d: "distinct (map fst es)" and n: "map_of es k' = None"
    by (simp_all add: map_of_eq_None_iff)
  from Cons.prems(2) e obtain vc1 where
    s: "updateStep (k', t) vc = Inr vc1" and l: "updateLoop es vc1 = Inr vc'"
    by (auto split: sum.splits)
  note ih = Cons.IH [OF d l]
  note st = vc_get_updateStep [OF s]
  show ?case
  proof (cases "k = k'")
    case True
    with ih st n show ?thesis unfolding e by simp
  next
    case False
    with ih st show ?thesis unfolding e by (simp split: option.splits)
  qed
qed

lemma vc_get_Update:
  "Update vc other = Inr vc' \<Longrightarrow>
     vc_get vc' k =
       (case map_of (vc_range other) k of None \<Rightarrow> vc_get vc k | Some t \<Rightarrow> max (vc_get vc k) t)"
proof -
  have "distinct (map fst (vc_range other))"
    by (cases other) (simp_all add: vc_range_def)
  then show "Update vc other = Inr vc' \<Longrightarrow> ?thesis"
    unfolding Update_def by (rule vc_get_updateLoop)
qed

lemma Update_max:
  assumes "0 \<le> vc_get vc k" and "Update vc other = Inr vc'"
  shows "vc_get vc' k = max (vc_get vc k) (vc_get other k)"
proof (cases "map_of (vc_range other) k")
  case None
  then have "vc_get other k = 0" by (simp add: vc_get_range)
  with None assms show ?thesis by (simp add: vc_get_Update)
next
  case (Some t)
  then have "vc_get other k = t" by (simp add: vc_get_range)
  with Some assms(2) show ?thesis by (simp add: vc_get_Update)
qed

section \<open>Properties of the replicated text\<close>

lemma mset_sift: "mset (sift lt x r) = add_mset x (mset r)"
  by (induction r) auto

lemma mset_fold_sift: "mset (fold (sift lt) xs acc) = mset xs + mset acc"
  by (induction xs arbitrary: acc) (auto simp: mset_sift)

lemma set_sift: "set (sift lt x ys) = insert x (set ys)"
  by (induction ys) auto

lemma set_fold_sift: "set (fold (sift lt) xs acc) = set xs \<union> set acc"
  by (induction xs arbitrary: acc) (auto simp: set_sift)

lemma mset_swapAt: "mset (swapAt ij xs) = mset xs"
  by (cases ij) (simp add: swapAt_def mset_swap)

lemma mset_fold_swapAt: "mset (fold swapAt swaps xs) = mset xs"
  by (induction swaps arbitrary: xs) (simp_all add: mset_swapAt)

lemma mset_sort_Slice: "mset (sort_Slice pdq lt xs) = mset xs"
  by (simp add: sort_Slice_def insertionSort_def mset_fold_sift mset_fold_swapAt)

lemma set_sort_Slice: "set (sort_Slice pdq lt xs) = set xs"
  using mset_sort_Slice [of pdq lt xs] by (metis set_mset_mset)

lemma sort_Slice_short:
  "length xs \<le> 12 \<Longrightarrow> sort_Slice pdq lt xs = insertionSort lt xs"
  by (simp add: sort_Slice_def)

lemma replayOp_negative:
  "negativePosition op \<Longrightarrow> replayOp t op = Inl SliceBoundsOutOfRange"
  by (auto simp: replayOp_def negativePosition_def)

lemma replayOp_returns:
  "\<not> negativePosition op \<Longrightarrow> \<exists>t'. replayOp t op = Inr t'"
  by (auto simp: replayOp_def negativePosition_def)

lemma replay_panics_iff: "(\<exists>p. replay t ops = Inl p) = (\<exists>op\<in>set ops. negativePosition op)"
proof (induction ops arbitrary: t)
  case Nil
  show ?case by simp
next
  case (Cons op ops)
  show ?case
  proof (cases "negativePosition op")
    case True
    then show ?thesis by (simp add: replayOp_negative)
  next
    case False
    then obtain t' where "replayOp t op = Inr t'"
      using replayOp_returns by blast
    then show ?thesis using False Cons.IH [of t'] by simp
  qed
qed

lemma rebuildText_panics_iff:
  "(\<exists>p. rebuildText pdq c = Inl p) = (\<exists>op\<in>set (Operations c). negativePosition op)"
proof -
  have "(\<exists>p. rebuildText pdq c = Inl p)
          = (\<exists>p. replay [] (sort_Slice pdq opLess (Operations c)) = Inl p)"
    by (auto simp: rebuildText_def split: sum.splits)
  then show ?thesis by (simp add: replay_panics_iff set_sort_Slice)
qed

lemma returns_iff_no_panic: "(\<exists>c'. r = Inr c') = (\<not> (\<exists>p. r = Inl p))"
  by (cases r) auto

lemma rebuildText_returns_iff:
  "(\<exists>c'. rebuildText pdq c = Inr c') = (\<forall>op\<in>set (Operations c). \<not> negativePosition op)"
  unfolding returns_iff_no_panic rebuildText_panics_iff by blast

lemma rebuildText_Inr:
  "rebuildText pdq c = Inr c' \<Longrightarrow>
     Operations c' = Operations c \<and> CRDT_Clock c' = CRDT_Clock c"
  by (auto simp: rebuildText_def split: sum.splits)

lemma ApplyOperation_Inr:
  "ApplyOperation pdq c op = Inr c' \<Longrightarrow>
     Operations c' = Operations c @ [op] \<and> Update (CRDT_Clock c) (Clock op) = Inr (CRDT_Clock c')"
  by (auto simp: ApplyOperation_def dest: rebuildText_Inr split: sum.splits)

lemma ApplyOperation_returns_iff:
  "(\<exists>c'. ApplyOperation pdq c op = Inr c') =
     ((\<exists>clock. Update (CRDT_Clock c) (Clock op) = Inr clock)
      \<and> (\<forall>x\<in>set (Operations c @ [op]). \<not> negativePosition x))"
proof (cases "Update (CRDT_Clock c) (Clock op)")
  case (Inl p)
  then show ?thesis by (simp add: ApplyOperation_def)
next
  case (Inr clock)
  then show ?thesis
    using rebuildText_returns_iff
      [of pdq "c\<lparr>CRDT_Clock := clock, Operations := Operations c @ [op]\<rparr>"]
    by (simp add: ApplyOperation_def)
qed

lemma ApplyOperations_Inr:
  "ApplyOperations pdq c ops = Inr c' \<Longrightarrow> Operations c' = Operations c @ ops"
proof (induction ops arbitrary: c)
  case Nil
  then show ?case by simp
next
  case (Cons op ops)
  then obtain c1 where
    c1: "ApplyOperation pdq c op = Inr c1" "ApplyOperations pdq c1 ops = Inr c'"
    by (auto split: sum.splits)
  then show ?case using Cons.IH [of c1] by (simp add: ApplyOperation_Inr)
qed

text \<open>
  C3. Merging the same source twice gives what merging it once gives. A merge that
  returns has appended to the log of \<open>c\<close> exactly the operations of \<open>s\<close> whose id \<open>c\<close> did
  not hold; the second merge then finds every id of \<open>s\<close> present, appends nothing and
  returns the CRDT it was given: same operation count, same text.
\<close>

theorem Merge_idempotent:
  assumes "Merge pdq c (Some s) = Inr c1"
  shows "Operations c1 =
           Operations c @ filter (\<lambda>op. ID op \<notin> ID ` set (Operations c)) (Operations s)
         \<and> Merge pdq c1 (Some s) = Inr c1"
proof -
  from assms have ops1:
    "Operations c1 = Operations c @ filter (\<lambda>op. \<not> existingIDs c (ID op)) (Operations s)"
    unfolding Merge_def by (simp add: ApplyOperations_Inr)
  then have "\<forall>op\<in>set (Operations s). existingIDs c1 (ID op)"
    by (auto simp: existingIDs_def)
  then have "filter (\<lambda>op. \<not> existingIDs c1 (ID op)) (Operations s) = []"
    by (simp add: filter_empty_conv)
  then have "Merge pdq c1 (Some s) = Inr c1" by (simp add: Merge_def)
  with ops1 show ?thesis by (simp add: existingIDs_def)
qed

theorem Merge_idempotent_witness:
  "Merge noSwaps replicaA (Some replicaB) = Inr replicaAB
   \<and> Operations replicaAB = [opA, opB]
   \<and> Merge noSwaps replicaAB (Some replicaB) = Inr replicaAB"
proof -
  have h: "Merge noSwaps replicaA (Some replicaB) = Inr replicaAB" by code_simp
  have "Operations replicaAB = [opA, opB]" by (simp add: replicaAB_def)
  then show ?thesis using h Merge_idempotent [OF h] by simp
qed



lemma Merge_AB_C: "Merge noSwaps replicaAB (Some replicaC) = Inr mergedABC"
  by code_simp

lemma Merge_C_AB: "Merge noSwaps replicaC (Some replicaAB) = Inr mergedACB"
  by code_simp

lemma descending_sift:
  assumes "strictLinearOn lt S" "x \<in> S" "set r \<subseteq> S" "descending lt r"
  shows "descending lt (sift lt x r)"
  using assms(3,4)
proof (induction r)
  case Nil
  then show ?case by (simp add: descending_def)
next
  case (Cons y ys)
  then have y: "y \<in> S" and ys: "set ys \<subseteq> S" and d: "descending lt ys"
    and yy: "\<forall>z\<in>set ys. \<not> lt y z"
    by (auto simp: descending_def)
  show ?case
  proof (cases "lt x y")
    case True
    then have "\<not> lt y x" using assms(1,2) y unfolding strictLinearOn_def by blast
    with True yy Cons.IH [OF ys d] show ?thesis
      by (auto simp: descending_def set_sift)
  next
    case False
    have "\<not> lt x z" if "z \<in> set ys" for z
    proof
      assume xz: "lt x z"
      from that ys have z: "z \<in> S" by blast
      from False have "x = y \<or> lt y x" using assms(1,2) y unfolding strictLinearOn_def by blast
      then have "lt y z"
        using xz assms(1,2) y z unfolding strictLinearOn_def by blast
      with yy that show False by blast
    qed
    with False Cons.prems show ?thesis by (auto simp: descending_def)
  qed
qed

lemma descending_fold_sift:
  assumes "strictLinearOn lt S"
  shows "set xs \<subseteq> S \<Longrightarrow> set acc \<subseteq> S \<Longrightarrow> descending lt acc \<Longrightarrow>
           descending lt (fold (sift lt) xs acc)"
proof (induction xs arbitrary: acc)
  case Nil
  then show ?case by simp
next
  case (Cons x xs)
  then have "descending lt (sift lt x acc)" "set (sift lt x acc) \<subseteq> S"
    using descending_sift [OF assms, of x acc] by (auto simp: set_sift)
  with Cons show ?case by simp
qed

lemma descending_unique:
  assumes "strictLinearOn lt S"
  shows "set r \<subseteq> S \<Longrightarrow> descending lt r \<Longrightarrow> descending lt r' \<Longrightarrow> mset r = mset r' \<Longrightarrow> r = r'"
proof (induction r arbitrary: r')
  case Nil
  then show ?case by simp
next
  case (Cons a r1)
  then obtain b r1' where r': "r' = b # r1'" by (cases r') auto
  from Cons.prems(4) have sets: "set (a # r1) = set r'" by (metis mset_eq_setD)
  have "a = b"
  proof (rule ccontr)
    assume ne: "a \<noteq> b"
    with sets r' have "a \<in> set r1'" "b \<in> set r1" by auto
    with Cons.prems(2,3) r' have "\<not> lt b a" "\<not> lt a b" by (auto simp: descending_def)
    moreover from sets r' Cons.prems(1) have "a \<in> S" "b \<in> S" by auto
    ultimately show False using ne assms unfolding strictLinearOn_def by blast
  qed
  with Cons.prems r' have "r1 = r1'"
    using Cons.IH [of r1'] by (auto simp: descending_def)
  with \<open>a = b\<close> r' show ?case by simp
qed

lemma insertionSort_canonical:
  assumes "strictLinearOn lt (set xs)" "mset xs = mset ys"
  shows "insertionSort lt xs = insertionSort lt ys"
proof -
  from assms(2) have s: "set ys = set xs" by (metis mset_eq_setD)
  have e: "descending lt []" "set [] \<subseteq> set xs" by (simp_all add: descending_def)
  have "descending lt (fold (sift lt) xs [])"
    using descending_fold_sift [OF assms(1) _ e(2) e(1), of xs] by simp
  moreover have "descending lt (fold (sift lt) ys [])"
    using descending_fold_sift [OF assms(1) _ e(2) e(1), of ys] s by simp
  moreover have "mset (fold (sift lt) xs []) = mset (fold (sift lt) ys [])"
    using assms(2) by (simp add: mset_fold_sift)
  moreover have "set (fold (sift lt) xs []) \<subseteq> set xs" by (simp add: set_fold_sift)
  ultimately have "fold (sift lt) xs [] = fold (sift lt) ys []"
    using descending_unique [OF assms(1)] by blast
  then show ?thesis by (simp add: insertionSort_def)
qed

lemma rebuildText_converges:
  assumes "strictLinearOn opLess (set (Operations c1))"
    and "mset (Operations c1) = mset (Operations c2)"
    and "length (Operations c1) \<le> 12"
  shows "map_sum id Text (rebuildText pdq c1) = map_sum id Text (rebuildText pdq c2)"
proof -
  from assms(2) have "length (Operations c2) = length (Operations c1)"
    by (metis size_mset)
  with assms(3) have
    "sort_Slice pdq opLess (Operations c1) = insertionSort opLess (Operations c1)"
    "sort_Slice pdq opLess (Operations c2) = insertionSort opLess (Operations c2)"
    by (simp_all add: sort_Slice_short)
  then have "sort_Slice pdq opLess (Operations c1) = sort_Slice pdq opLess (Operations c2)"
    using insertionSort_canonical [OF assms(1,2)] by simp
  then show ?thesis by (simp add: rebuildText_def split: sum.splits)
qed

lemma rebuildText_converges_example:
  "strictLinearOn opLess (set (Operations replicaC))
   \<and> map_sum id Text (rebuildText noSwaps replicaC)
       = map_sum id Text (rebuildText noSwaps (replicaC\<lparr>Operations := [opC, opA]\<rparr>))"
proof -
  have l: "strictLinearOn opLess (set (Operations replicaC))"
    unfolding strictLinearOn_def by code_simp
  have "mset (Operations replicaC) = mset (Operations (replicaC\<lparr>Operations := [opC, opA]\<rparr>))"
    "length (Operations replicaC) \<le> 12"
    by (simp_all add: replicaC_def)
  with l show ?thesis using rebuildText_converges by blast
qed

text \<open>
  C1. Convergence fails on the code. \<open>opLess\<close> is not transitive: \<open>opA\<close> is before \<open>opC\<close>
  by the clocks, \<open>opC\<close> is before \<open>opB\<close> and \<open>opB\<close> before \<open>opA\<close> by the timestamps of
  concurrent operations. A replica holding \<open>opA, opB\<close> that merges one holding \<open>opA, opC\<close>
  and that replica merging the first end with the same three operations, the sort
  leaves each log in an order of its own, and the two texts differ. Where \<open>opLess\<close> does
  order the operations of a short log strictly and totally, the text depends on the
  operations only (\<open>rebuildText_converges\<close>).
\<close>

theorem rebuildText_diverges:
  "Merge noSwaps replicaAB (Some replicaC) = Inr mergedABC
   \<and> Merge noSwaps replicaC (Some replicaAB) = Inr mergedACB
   \<and> set (Operations mergedABC) = set (Operations mergedACB)
   \<and> rebuildText noSwaps mergedABC = Inr mergedABC
   \<and> rebuildText noSwaps mergedACB = Inr mergedACB
   \<and> Text mergedABC = [99, 97, 98]
   \<and> Text mergedACB = [98, 99, 97]
   \<and> opLess opA opC \<and> opLess opC opB \<and> opLess opB opA"
proof -
  have "set (Operations mergedABC) = set (Operations mergedACB)"
    by (auto simp: mergedABC_def mergedACB_def)
  moreover have "rebuildText noSwaps mergedABC = Inr mergedABC" by code_simp
  moreover have "rebuildText noSwaps mergedACB = Inr mergedACB" by code_simp
  moreover have "opLess opA opC \<and> opLess opC opB \<and> opLess opB opA" by code_simp
  ultimately show ?thesis
    using Merge_AB_C Merge_C_AB by (simp add: mergedABC_def mergedACB_def)
qed

lemma replayOp_skip_insert:
  "Type op = ''insert'' \<Longrightarrow> int (length t) < Position op \<Longrightarrow> replayOp t op = Inr t"
  by (simp add: replayOp_def)

lemma replayOp_skip_delete:
  "Type op = ''delete'' \<Longrightarrow> int (length t) \<le> Position op \<Longrightarrow> replayOp t op = Inr t"
  by (simp add: replayOp_def)

text \<open>
  C5. A position above the bound is skipped (\<open>replayOp_skip_insert\<close>,
  \<open>replayOp_skip_delete\<close>), a negative one is not: it passes the guard, which only
  compares with the length of the text, and the slice expression panics. Applying an
  insert or a delete at position \<open>-1\<close> ends in the panic instead of a CRDT whose text is
  unchanged.
\<close>

theorem negative_position_panics:
  "ApplyOperation noSwaps NewCRDT opNeg = Inl SliceBoundsOutOfRange
   \<and> ApplyOperation noSwaps replicaA (opNeg\<lparr>Type := ''delete''\<rparr>) = Inl SliceBoundsOutOfRange
   \<and> replayOp [] opNeg = Inl SliceBoundsOutOfRange"
  by code_simp

lemma GetOperationsSince_eq:
  "GetOperationsSince c since = filter (\<lambda>op. Compare (Clock op) since = 1) (Operations c)"
proof -
  have "(\<not> HappensBefore a b \<and> Compare a b \<noteq> 0) = (Compare a b = 1)" for a b
    using Compare_range [of a b] unfolding HappensBefore_def by auto
  then show ?thesis by (simp add: GetOperationsSince_def)
qed

text \<open>
  C8. \<open>GetOperationsSince\<close> returns the operations whose clock is strictly after the
  given one (\<open>GetOperationsSince_eq\<close>): \<open>Compare\<close> answers 0 for concurrent clocks as
  well as for equal ones, so the test \<^verbatim>\<open>Compare(since) != 0\<close> drops the concurrent
  operations too. The clock of \<open>opB\<close> is concurrent with \<open>{A: 1}\<close>, neither before it nor
  equal to it, and \<open>opB\<close> is not returned.
\<close>

theorem GetOperationsSince_drops_concurrent:
  "compareFlags (Clock opB) (Some [(''A'', 1)]) = (True, True)
   \<and> \<not> HappensBefore (Clock opB) (Some [(''A'', 1)])
   \<and> vc_get (Clock opB) ''B'' \<noteq> vc_get (Some [(''A'', 1)]) ''B''
   \<and> Operations replicaB = [opB]
   \<and> GetOperationsSince replicaB (Some [(''A'', 1)]) = []"
  by code_simp

section \<open>Properties of the synchronisation engine\<close>

text \<open>
  C6. When the stored note is found and the client's clock compares strictly before the
  stored clock, \<open>syncNote\<close> returns no conflict and no error, and the store it hands back
  is the store it was given: nothing is merged, changed or written.
\<close>

theorem syncNote_causal_discard:
  assumes "Store_GetNote s (Note_ID clientNote) = Inr (Some serverNote)"
    and "Compare (Note_Clock clientNote) (Note_Clock serverNote) = - 1"
  shows "syncNote pdq s now clientNote clientID lastSync = (Returns None, s)"
  using assms by (simp add: syncNote_def)

lemma decode_serverNote1: "decodeRow (''n1'', serverNote1) = serverNote1"
  by (simp add: decodeRow_def serverNote1_def)

theorem syncNote_causal_discard_witness:
  "Store_GetNote store1 (Note_ID clientBehind) = Inr (Some serverNote1)
   \<and> Compare (Note_Clock clientBehind) (Note_Clock serverNote1) = - 1
   \<and> syncNote noSwaps store1 7 clientBehind ''A'' None = (Returns None, store1)"
proof -
  have g: "Store_GetNote store1 (Note_ID clientBehind) = Inr (Some serverNote1)"
    by (simp add: Store_GetNote_def store1_def clientBehind_def decode_serverNote1)
  have c: "Compare (Note_Clock clientBehind) (Note_Clock serverNote1) = - 1"
    by code_simp
  show ?thesis using g c syncNote_causal_discard [OF g c] by simp
qed

lemma Store_GetNote_ID: "Store_GetNote s i = Inr (Some n) \<Longrightarrow> Note_ID n = i"
  by (auto simp: Store_GetNote_def decodeRow_def split: if_splits)

lemma Store_SaveNote_row:
  "Store_SaveNote s n = Inr s' \<Longrightarrow>
     \<exists>n'. map_of (rows s') (Note_ID n) = Some n' \<and> Note_Clock n' = Note_Clock n
          \<and> Note_CRDT n' = Note_CRDT n \<and> Note_Content n' = Note_Content n"
  by (auto simp: Store_SaveNote_def update_conv' map_add_def split: if_splits option.splits)

lemma mergeIntoServer_Inr:
  "(mergeIntoServer pdq serverNote clientNote now = Inr note) =
     (\<exists>serverCRDT merged clock.
        Note_CRDT serverNote = Some serverCRDT
      \<and> Merge pdq serverCRDT (Note_CRDT clientNote) = Inr merged
      \<and> Update (Note_Clock serverNote) (Note_Clock clientNote) = Inr clock
      \<and> note = mergedNote serverNote merged clock now)"
  by (auto simp: mergeIntoServer_def split: option.splits sum.splits)

lemma get_store1: "Store_GetNote store1 (Note_ID clientConcurrent) = Inr (Some serverNote1)"
  by (simp add: Store_GetNote_def store1_def clientConcurrent_def decode_serverNote1)

lemma get_storeSaveFails:
  "Store_GetNote storeSaveFails (Note_ID clientConcurrent) = Inr (Some serverNote1)"
  by (simp add: Store_GetNote_def storeSaveFails_def clientConcurrent_def decode_serverNote1)

lemma compare_concurrent: "Compare (Note_Clock clientConcurrent) (Note_Clock serverNote1) = 0"
  by code_simp

lemma merge_concurrent:
  "Note_CRDT serverNote1 = Some replicaAB"
  "Merge noSwaps replicaAB (Note_CRDT clientConcurrent) = Inr mergedABC"
  using Merge_AB_C by (simp_all add: serverNote1_def clientConcurrent_def)

lemma update_concurrent:
  "Update (Note_Clock serverNote1) (Note_Clock clientConcurrent)
     = Inr (Some [(''A'', 1), (''B'', 1), (''C'', 1)])"
  by code_simp

lemma mergeIntoServer_concurrent:
  "mergeIntoServer noSwaps serverNote1 clientConcurrent 7 =
     Inr (mergedNote serverNote1 mergedABC (Some [(''A'', 1), (''B'', 1), (''C'', 1)]) 7)"
  by (simp add: mergeIntoServer_def merge_concurrent update_concurrent)

lemma save_store1:
  "Store_SaveNote store1
     (mergedNote serverNote1 mergedABC (Some [(''A'', 1), (''B'', 1), (''C'', 1)]) 7)
     = Inr store1Merged"
  by (simp add: Store_SaveNote_def store1_def store1Merged_def mergedNote_def)
     (simp add: serverNote1_def serverNoteMerged_def mergedABC_def)

lemma save_storeSaveFails: "Store_SaveNote storeSaveFails n = Inl ()"
  by (simp add: Store_SaveNote_def storeSaveFails_def)

lemma clientConcurrent_fields:
  "Note_ID clientConcurrent = ''n1''"
  "Note_Clock clientConcurrent = Some [(''A'', 1), (''C'', 1)]"
  by (simp_all add: clientConcurrent_def)

lemma syncNote_storeSaveFails:
  "syncNote noSwaps storeSaveFails 7 clientConcurrent ''C'' None
     = (Fails FailedToSaveMergedNote, storeSaveFails)"
  using get_storeSaveFails compare_concurrent
  by (simp add: syncNote_def mergeIntoServer_concurrent save_storeSaveFails)

lemma syncNote_store1:
  "syncNote noSwaps store1 7 clientConcurrent ''C'' None
     = (Returns (Some conflict1), store1Merged)"
proof -
  have "Note_Clock (mergedNote serverNote1 mergedABC (Some [(''A'', 1), (''B'', 1), (''C'', 1)]) 7)
          = Some [(''A'', 1), (''B'', 1), (''C'', 1)]"
    by (simp add: mergedNote_def)
  then show ?thesis
    using get_store1 compare_concurrent clientConcurrent_fields
    by (simp add: syncNote_def mergeIntoServer_concurrent save_store1 conflict1_def)
qed

text \<open>
  C7, as the claim states it, fails: the clocks of the stored note and of the client's
  copy are concurrent, the save fails, and \<open>syncNote\<close> returns the error, no conflict
  record, and the store unchanged.
\<close>

theorem syncNote_conflict_counterexample:
  "Store_GetNote storeSaveFails (Note_ID clientConcurrent) = Inr (Some serverNote1)
   \<and> Compare (Note_Clock clientConcurrent) (Note_Clock serverNote1) = 0
   \<and> syncNote noSwaps storeSaveFails 7 clientConcurrent ''C'' None
       = (Fails FailedToSaveMergedNote, storeSaveFails)"
  using get_storeSaveFails compare_concurrent syncNote_storeSaveFails by simp

text \<open>
  C7, amended. With \<open>found\<close> "the stored note is found, the two clocks compare as
  concurrent-or-equal, and the merge of the CRDTs and the update of the stored clock
  return, giving the merged note": \<open>syncNote\<close> returns a conflict record exactly when
  \<open>found\<close> holds and the save of the merged note succeeds; the record is then the one of
  that note with resolution \<open>merged\<close>, the store handed back is the result of that save,
  and its row for the note holds the merged CRDT, its text and the reported server clock.
  When \<open>found\<close> holds and the save fails, \<open>syncNote\<close> returns the save error, no conflict
  record, and the store it was given. On every other path no conflict record is returned.
\<close>

theorem syncNote_conflict_emission:
  fixes pdq s now clientNote clientID lastSync
  defines "found \<equiv> \<lambda>serverNote merged clock.
             Store_GetNote s (Note_ID clientNote) = Inr (Some serverNote)
           \<and> Compare (Note_Clock clientNote) (Note_Clock serverNote) = 0
           \<and> (\<exists>serverCRDT. Note_CRDT serverNote = Some serverCRDT
                \<and> Merge pdq serverCRDT (Note_CRDT clientNote) = Inr merged)
           \<and> Update (Note_Clock serverNote) (Note_Clock clientNote) = Inr clock"
  shows "((syncNote pdq s now clientNote clientID lastSync = (Returns (Some conflict), s')) =
           (\<exists>serverNote merged clock.
              found serverNote merged clock
            \<and> Store_SaveNote s (mergedNote serverNote merged clock now) = Inr s'
            \<and> conflict = \<lparr>NoteID = Note_ID clientNote, ClientClock = Note_Clock clientNote,
                           ServerClock = clock, Resolution = ''merged''\<rparr>
            \<and> (\<exists>stored. map_of (rows s') (Note_ID clientNote) = Some stored
                  \<and> Note_CRDT stored = Some merged
                  \<and> Note_Content stored = Text merged
                  \<and> Note_Clock stored = clock)))
         \<and> (found serverNote merged clock
              \<and> Store_SaveNote s (mergedNote serverNote merged clock now) = Inl ()
            \<longrightarrow> syncNote pdq s now clientNote clientID lastSync
                  = (Fails FailedToSaveMergedNote, s))"
proof -
  have raw: "(syncNote pdq s now clientNote clientID lastSync = (Returns (Some conflict), s')) =
     (\<exists>serverNote nt.
        Store_GetNote s (Note_ID clientNote) = Inr (Some serverNote)
      \<and> Compare (Note_Clock clientNote) (Note_Clock serverNote) = 0
      \<and> mergeIntoServer pdq serverNote clientNote now = Inr nt
      \<and> Store_SaveNote s nt = Inr s'
      \<and> conflict = \<lparr>NoteID = Note_ID clientNote, ClientClock = Note_Clock clientNote,
                     ServerClock = Note_Clock nt, Resolution = ''merged''\<rparr>)"
    by (auto simp: syncNote_def Let_def split: sum.splits option.splits)
  have mi: "mergeIntoServer pdq sn clientNote now = Inr (mergedNote sn mg ck now)"
    if "found sn mg ck" for sn mg ck
    using that unfolding found_def mergeIntoServer_Inr by blast
  have first: "(syncNote pdq s now clientNote clientID lastSync = (Returns (Some conflict), s')) =
           (\<exists>serverNote merged clock.
              found serverNote merged clock
            \<and> Store_SaveNote s (mergedNote serverNote merged clock now) = Inr s'
            \<and> conflict = \<lparr>NoteID = Note_ID clientNote, ClientClock = Note_Clock clientNote,
                           ServerClock = clock, Resolution = ''merged''\<rparr>
            \<and> (\<exists>stored. map_of (rows s') (Note_ID clientNote) = Some stored
                  \<and> Note_CRDT stored = Some merged
                  \<and> Note_Content stored = Text merged
                  \<and> Note_Clock stored = clock))"
    (is "?lhs = ?rhs")
  proof
    assume ?lhs
    then obtain serverNote nt where
      g: "Store_GetNote s (Note_ID clientNote) = Inr (Some serverNote)" and
      c: "Compare (Note_Clock clientNote) (Note_Clock serverNote) = 0" and
      mg: "mergeIntoServer pdq serverNote clientNote now = Inr nt" and
      sv: "Store_SaveNote s nt = Inr s'" and
      cf: "conflict = \<lparr>NoteID = Note_ID clientNote, ClientClock = Note_Clock clientNote,
                         ServerClock = Note_Clock nt, Resolution = ''merged''\<rparr>"
      unfolding raw by blast
    from mg obtain serverCRDT merged clock where
      sc: "Note_CRDT serverNote = Some serverCRDT" and
      me: "Merge pdq serverCRDT (Note_CRDT clientNote) = Inr merged" and
      up: "Update (Note_Clock serverNote) (Note_Clock clientNote) = Inr clock" and
      n: "nt = mergedNote serverNote merged clock now"
      unfolding mergeIntoServer_Inr by blast
    from g c sc me up have f: "found serverNote merged clock"
      unfolding found_def by blast
    from g have "Note_ID serverNote = Note_ID clientNote" by (rule Store_GetNote_ID)
    then have i: "Note_ID nt = Note_ID clientNote" using n by (simp add: mergedNote_def)
    from Store_SaveNote_row [OF sv] i n obtain stored where
      "map_of (rows s') (Note_ID clientNote) = Some stored"
      "Note_CRDT stored = Some merged" "Note_Content stored = Text merged"
      "Note_Clock stored = clock"
      by (auto simp: mergedNote_def)
    moreover from cf n have "conflict = \<lparr>NoteID = Note_ID clientNote,
        ClientClock = Note_Clock clientNote, ServerClock = clock, Resolution = ''merged''\<rparr>"
      by (simp add: mergedNote_def)
    ultimately show ?rhs using f sv n by blast
  next
    assume ?rhs
    then obtain serverNote merged clock where
      f: "found serverNote merged clock" and
      sv: "Store_SaveNote s (mergedNote serverNote merged clock now) = Inr s'" and
      cf: "conflict = \<lparr>NoteID = Note_ID clientNote, ClientClock = Note_Clock clientNote,
                         ServerClock = clock, Resolution = ''merged''\<rparr>"
      by blast
    have "Note_Clock (mergedNote serverNote merged clock now) = clock"
      by (simp add: mergedNote_def)
    with f sv cf mi [OF f] show ?lhs unfolding raw found_def by metis
  qed
  have second: "syncNote pdq s now clientNote clientID lastSync
                  = (Fails FailedToSaveMergedNote, s)"
    if f: "found serverNote merged clock"
      and sv: "Store_SaveNote s (mergedNote serverNote merged clock now) = Inl ()"
  proof -
    from f have "Store_GetNote s (Note_ID clientNote) = Inr (Some serverNote)"
      "Compare (Note_Clock clientNote) (Note_Clock serverNote) = 0"
      unfolding found_def by blast+
    with mi [OF f] sv show ?thesis by (simp add: syncNote_def)
  qed
  from first second show ?thesis by blast
qed

theorem syncNote_conflict_emission_witness:
  "syncNote noSwaps store1 7 clientConcurrent ''C'' None
     = (Returns (Some conflict1), store1Merged)
   \<and> Store_SaveNote storeSaveFails
        (mergedNote serverNote1 mergedABC (Some [(''A'', 1), (''B'', 1), (''C'', 1)]) 7) = Inl ()
   \<and> syncNote noSwaps storeSaveFails 7 clientConcurrent ''C'' None
       = (Fails FailedToSaveMergedNote, storeSaveFails)"
proof -
  let ?clock = "Some [(''A'', 1), (''B'', 1), (''C'', 1)]"
  have st: "map_of (rows store1Merged) ''n1'' = Some serverNoteMerged"
    "Note_CRDT serverNoteMerged = Some mergedABC"
    "Note_Content serverNoteMerged = Text mergedABC"
    "Note_Clock serverNoteMerged = ?clock"
    by (simp_all add: store1Merged_def serverNoteMerged_def mergedABC_def)
  have "syncNote noSwaps store1 7 clientConcurrent ''C'' None
          = (Returns (Some conflict1), store1Merged)"
    using get_store1 compare_concurrent merge_concurrent update_concurrent save_store1 st
      clientConcurrent_fields
      syncNote_conflict_emission [of noSwaps store1 7 clientConcurrent "''C''" None
        conflict1 store1Merged serverNote1 mergedABC ?clock]
    by (auto simp: conflict1_def)
  moreover have "syncNote noSwaps storeSaveFails 7 clientConcurrent ''C'' None
       = (Fails FailedToSaveMergedNote, storeSaveFails)"
    using get_storeSaveFails compare_concurrent merge_concurrent update_concurrent
      save_storeSaveFails
      syncNote_conflict_emission [of noSwaps storeSaveFails 7 clientConcurrent "''C''" None
        conflict1 store1Merged serverNote1 mergedABC ?clock]
    by simp
  ultimately show ?thesis using save_storeSaveFails by simp
qed

lemma syncNote_Fails_store:
  "syncNote pdq s t n cid ls = (Fails e, s') \<Longrightarrow> s' = s"
  by (auto simp: syncNote_def Let_def split: sum.splits option.splits if_splits)

lemma Store_SaveNote_getAll:
  "Store_SaveNote s n = Inr s' \<Longrightarrow> getAllNotesFails s' = getAllNotesFails s"
  by (auto simp: Store_SaveNote_def split: if_splits)

lemma syncNote_getAll:
  "syncNote pdq s t n cid ls = (r, s') \<Longrightarrow> getAllNotesFails s' = getAllNotesFails s"
  by (auto simp: syncNote_def Let_def dest: Store_SaveNote_getAll
      split: sum.splits option.splits if_splits)

lemma syncLoop_getAll:
  "syncLoop pdq s now i req ns cs = (r, s') \<Longrightarrow> getAllNotesFails s' = getAllNotesFails s"
proof (induction ns arbitrary: s i cs)
  case Nil
  then show ?case by simp
next
  case (Cons n ns)
  obtain r1 s1 where
    step: "syncNote pdq s (now i) n (Req_ClientID req) (lastSyncOf req (Note_ID n)) = (r1, s1)"
    by (cases "syncNote pdq s (now i) n (Req_ClientID req) (lastSyncOf req (Note_ID n))")
  then have g: "getAllNotesFails s1 = getAllNotesFails s" by (rule syncNote_getAll)
  show ?case
  proof (cases r1)
    case (Panics p)
    with Cons.prems step g show ?thesis by simp
  next
    case (Fails e)
    with Cons.prems step have "syncLoop pdq s1 now (Suc i) req ns cs = (r, s')" by simp
    with Cons.IH g show ?thesis by simp
  next
    case (Returns c)
    with Cons.prems step obtain cs' where "syncLoop pdq s1 now (Suc i) req ns cs' = (r, s')"
      by (cases c) auto
    with Cons.IH g show ?thesis by simp
  qed
qed

lemma syncLoop_skip:
  assumes "fst (syncNote pdq s (now i) n (Req_ClientID req) (lastSyncOf req (Note_ID n)))
             = Fails e"
  shows "syncLoop pdq s now i req (n # ns) cs = syncLoop pdq s now (Suc i) req ns cs"
proof -
  obtain s' where
    "syncNote pdq s (now i) n (Req_ClientID req) (lastSyncOf req (Note_ID n)) = (Fails e, s')"
    using assms
    by (cases "syncNote pdq s (now i) n (Req_ClientID req) (lastSyncOf req (Note_ID n))") simp
  moreover from this have "s' = s" by (rule syncNote_Fails_store)
  ultimately show ?thesis by simp
qed

lemma Sync_cases:
  obtains (panics) p s' where "syncLoop pdq s now 0 req (Req_Notes req) [] = (Inl p, s')"
      "Sync pdq s now req = (Panics p, s')"
  | (fails) cs s' where "syncLoop pdq s now 0 req (Req_Notes req) [] = (Inr cs, s')"
      "getAllNotesFails s" "Sync pdq s now req = (Fails FailedToGetServerNotes, s')"
  | (returns) cs s' resp where "syncLoop pdq s now 0 req (Req_Notes req) [] = (Inr cs, s')"
      "\<not> getAllNotesFails s" "Sync pdq s now req = (Returns resp, s')" "Conflicts resp = cs"
proof -
  obtain r s' where l: "syncLoop pdq s now 0 req (Req_Notes req) [] = (r, s')"
    by (cases "syncLoop pdq s now 0 req (Req_Notes req) []")
  then have g: "getAllNotesFails s' = getAllNotesFails s" by (rule syncLoop_getAll)
  show thesis
  proof (cases r)
    case (Inl p)
    with l have "Sync pdq s now req = (Panics p, s')" by (simp add: Sync_def)
    with l Inl panics show ?thesis by simp
  next
    case (Inr cs)
    show ?thesis
    proof (cases "getAllNotesFails s")
      case True
      with l Inr g have "Sync pdq s now req = (Fails FailedToGetServerNotes, s')"
        by (simp add: Sync_def Store_GetAllNotes_def)
      with l Inr True fails show ?thesis by simp
    next
      case False
      with l Inr g have "\<exists>resp. Sync pdq s now req = (Returns resp, s') \<and> Conflicts resp = cs"
        by (simp add: Sync_def Store_GetAllNotes_def)
      with l Inr False returns show ?thesis by blast
    qed
  qed
qed

lemma syncNote_getFails:
  "getNoteFails s (Note_ID n) \<Longrightarrow>
     syncNote pdq s t n cid ls = (Fails FailedToGetServerNote, s)"
  by (simp add: syncNote_def Store_GetNote_def)

lemma syncLoop_all_getFail:
  "\<forall>n\<in>set ns. getNoteFails s (Note_ID n) \<Longrightarrow> syncLoop pdq s now i req ns cs = (Inr cs, s)"
  by (induction ns arbitrary: i) (simp_all add: syncNote_getFails)

text \<open>Well-formed inputs: nothing panics, and the store stays well-formed.\<close>

lemma ApplyOperation_wf:
  assumes "wfCRDT c" "\<not> negativePosition op"
  shows "\<exists>c'. ApplyOperation pdq c op = Inr c' \<and> wfCRDT c'"
proof -
  from assms(1) obtain al where u: "Update (CRDT_Clock c) (Clock op) = Inr (Some al)"
    using Update_not_nil [of "CRDT_Clock c" "Clock op"] by (auto simp: wfCRDT_def)
  from assms have "\<forall>x\<in>set (Operations c @ [op]). \<not> negativePosition x"
    by (auto simp: wfCRDT_def)
  with u obtain c' where c': "ApplyOperation pdq c op = Inr c'"
    using ApplyOperation_returns_iff [of pdq c op] by blast
  with u assms have "wfCRDT c'"
    using ApplyOperation_Inr [OF c'] by (auto simp: wfCRDT_def)
  with c' show ?thesis by blast
qed

lemma ApplyOperations_wf:
  "wfCRDT c \<Longrightarrow> \<forall>op\<in>set ops. \<not> negativePosition op \<Longrightarrow>
     \<exists>c'. ApplyOperations pdq c ops = Inr c' \<and> wfCRDT c'"
proof (induction ops arbitrary: c)
  case Nil
  then show ?case by simp
next
  case (Cons op ops)
  then obtain c1 where "ApplyOperation pdq c op = Inr c1" "wfCRDT c1"
    using ApplyOperation_wf [of c op pdq] by auto
  with Cons show ?case by simp
qed

lemma Merge_wf:
  assumes "wfCRDT c" "wfCRDT other"
  shows "\<exists>c'. Merge pdq c (Some other) = Inr c' \<and> wfCRDT c'"
proof -
  from assms(2) have
    "\<forall>op\<in>set (filter (\<lambda>op. \<not> existingIDs c (ID op)) (Operations other)). \<not> negativePosition op"
    by (simp add: wfCRDT_def)
  with assms(1) show ?thesis unfolding Merge_def by (simp add: ApplyOperations_wf)
qed

lemma mergeIntoServer_wf:
  assumes "wfNote serverNote" "wfNote clientNote"
  shows "\<exists>n. mergeIntoServer pdq serverNote clientNote now = Inr n \<and> wfNote n"
proof -
  from assms obtain sc cc where
    sc: "Note_CRDT serverNote = Some sc" "wfCRDT sc" and
    cc: "Note_CRDT clientNote = Some cc" "wfCRDT cc"
    by (auto simp: wfNote_def split: option.splits)
  then obtain merged where m: "Merge pdq sc (Some cc) = Inr merged" "wfCRDT merged"
    using Merge_wf by blast
  from assms(1) obtain al where
    u: "Update (Note_Clock serverNote) (Note_Clock clientNote) = Inr (Some al)"
    using Update_not_nil [of "Note_Clock serverNote"] by (auto simp: wfNote_def)
  have "wfNote (mergedNote serverNote merged (Some al) now)"
    using m(2) by (simp add: wfNote_def mergedNote_def)
  with sc cc m u show ?thesis by (simp add: mergeIntoServer_def)
qed

lemma Store_GetNote_wf:
  assumes "wfStore s" "Store_GetNote s i = Inr (Some n)"
  shows "wfNote n"
proof -
  from assms(2) obtain m where m: "map_of (rows s) i = Some m" "n = decodeRow (i, m)"
    by (auto simp: Store_GetNote_def split: if_splits)
  then have "(i, m) \<in> set (rows s)" by (simp add: map_of_SomeD)
  with assms(1) have "wfNote m" unfolding wfStore_def by force
  with m(2) show ?thesis by (auto simp: wfNote_def decodeRow_def split: option.splits)
qed

lemma Store_SaveNote_wf:
  assumes "wfStore s" "wfNote n" "Store_SaveNote s n = Inr s'"
  shows "wfStore s'"
proof -
  have w: "wfNote (n\<lparr>CreatedAt := t\<rparr>)" for t
    using assms(2) by (simp add: wfNote_def)
  have "set (AList.update k v al) \<subseteq> insert (k, v) (set al)" for k and v :: Note and al
    by (induction al) auto
  then have "snd ` set (AList.update k v al) \<subseteq> insert v (snd ` set al)"
    for k and v :: Note and al
    by force
  with assms w show ?thesis
    by (fastforce simp: Store_SaveNote_def wfStore_def split: if_splits option.splits)
qed

lemma syncNote_wf:
  assumes "wfStore s" "wfNote clientNote"
    and "syncNote pdq s t clientNote cid ls = (r, s')"
  shows "(\<forall>p. r \<noteq> Panics p) \<and> wfStore s'"
proof (cases "Store_GetNote s (Note_ID clientNote)")
  case (Inl u)
  with assms show ?thesis by (auto simp: syncNote_def)
next
  case (Inr found)
  show ?thesis
  proof (cases found)
    case None
    have "wfNote (clientNote\<lparr>UpdatedAt := t\<rparr>)"
      using assms(2) by (simp add: wfNote_def)
    with assms(1,3) Inr None show ?thesis
      by (auto simp: syncNote_def dest: Store_SaveNote_wf split: sum.splits)
  next
    case (Some serverNote)
    with Inr assms(1) have "wfNote serverNote" using Store_GetNote_wf by blast
    then obtain n where n: "mergeIntoServer pdq serverNote clientNote t = Inr n" "wfNote n"
      using mergeIntoServer_wf [OF _ assms(2)] by blast
    with assms(1,3) Inr Some show ?thesis
      by (auto simp: syncNote_def Let_def dest: Store_SaveNote_wf split: sum.splits if_splits)
  qed
qed

lemma syncLoop_wf:
  "wfStore s \<Longrightarrow> \<forall>n\<in>set ns. wfNote n \<Longrightarrow> syncLoop pdq s now i req ns cs = (r, s') \<Longrightarrow>
     \<forall>p. r \<noteq> Inl p"
proof (induction ns arbitrary: s i cs)
  case Nil
  then show ?case by auto
next
  case (Cons n ns)
  obtain r1 s1 where
    step: "syncNote pdq s (now i) n (Req_ClientID req) (lastSyncOf req (Note_ID n)) = (r1, s1)"
    by (cases "syncNote pdq s (now i) n (Req_ClientID req) (lastSyncOf req (Note_ID n))")
  with Cons.prems have w: "\<forall>p. r1 \<noteq> Panics p" "wfStore s1"
    using syncNote_wf [of s n pdq "now i" "Req_ClientID req" "lastSyncOf req (Note_ID n)" r1 s1]
    by simp_all
  from Cons.prems have ns: "\<forall>n\<in>set ns. wfNote n" by simp
  show ?case
  proof (cases r1)
    case (Panics p)
    with w show ?thesis by simp
  next
    case (Fails e)
    with Cons.prems step have "syncLoop pdq s1 now (Suc i) req ns cs = (r, s')" by simp
    with Cons.IH [OF w(2) ns] show ?thesis by blast
  next
    case (Returns c)
    with Cons.prems step obtain cs' where "syncLoop pdq s1 now (Suc i) req ns cs' = (r, s')"
      by (cases c) auto
    with Cons.IH [OF w(2) ns] show ?thesis by blast
  qed
qed

lemma request1_fields:
  "Req_Notes request1 = [clientConcurrent]" "Req_ClientID request1 = ''C''"
  "lastSyncOf request1 k = None"
  by (simp_all add: request1_def lastSyncOf_def)

lemma serverNote1_fields:
  "DeletedAt serverNote1 = None" "Note_ID serverNote1 = ''n1''"
  "Note_Clock serverNote1 = Some [(''A'', 1), (''B'', 1)]"
  by (simp_all add: serverNote1_def)

lemma include_serverNote1: "includeNote request1 serverNote1"
  by (simp add: includeNote_def request1_fields)

lemma wf_samples: "wfNote serverNote1" "wfNote clientConcurrent"
  by (simp_all add: wfNote_def wfCRDT_def negativePosition_def serverNote1_def
      clientConcurrent_def replicaAB_def replicaC_def opA_def opB_def opC_def)

text \<open>
  C9, as the claim states it, fails. In \<open>storeGetFails\<close> every load fails and in
  \<open>storeSaveFails\<close> every save fails: \<open>syncNote\<close> returns the error for the client's
  note, and \<open>Sync\<close> nevertheless completes with a response, the store unchanged.
\<close>

theorem Sync_swallows_counterexample:
  "syncNote noSwaps storeGetFails 7 clientConcurrent ''C'' None
     = (Fails FailedToGetServerNote, storeGetFails)
   \<and> Sync noSwaps storeGetFails clock7 request1 = (Returns response1, storeGetFails)
   \<and> syncNote noSwaps storeSaveFails 7 clientConcurrent ''C'' None
       = (Fails FailedToSaveMergedNote, storeSaveFails)
   \<and> Sync noSwaps storeSaveFails clock7 request1 = (Returns response1, storeSaveFails)"
proof -
  have a: "syncNote noSwaps storeGetFails t clientConcurrent cid ls
             = (Fails FailedToGetServerNote, storeGetFails)" for t cid ls
    by (rule syncNote_getFails) (simp add: storeGetFails_def)
  note b = syncNote_storeSaveFails
  have ga: "Store_GetAllNotes storeGetFails = Inr [serverNote1]"
    by (simp add: Store_GetAllNotes_def storeGetFails_def decode_serverNote1
        serverNote1_fields asSelected_def)
  have gb: "Store_GetAllNotes storeSaveFails = Inr [serverNote1]"
    by (simp add: Store_GetAllNotes_def storeSaveFails_def decode_serverNote1
        serverNote1_fields asSelected_def)
  have "Sync noSwaps storeGetFails clock7 request1 = (Returns response1, storeGetFails)"
    by (simp add: Sync_def request1_fields a ga include_serverNote1 serverNote1_fields
        response1_def)
  moreover
  have "Sync noSwaps storeSaveFails clock7 request1 = (Returns response1, storeSaveFails)"
    by (simp add: Sync_def request1_fields b gb include_serverNote1 serverNote1_fields
        response1_def clock7_def)
  ultimately show ?thesis using a b by simp
qed

text \<open>
  C9, amended. A failure of the load or of the save inside \<open>syncNote\<close> is not returned
  by \<open>Sync\<close>. A failing load makes \<open>syncNote\<close> return its error with the store unchanged;
  whenever \<open>syncNote\<close> returns an error, the loop goes on with the next note, from the
  same store and with the same conflicts. \<open>Sync\<close> returns an error only when
  \<^verbatim>\<open>GetAllNotes\<close> fails. When the load fails for every submitted note and
  \<^verbatim>\<open>GetAllNotes\<close> succeeds, \<open>Sync\<close> returns a response without conflicts and the store
  unchanged. On well-formed stored and submitted notes (clocks and CRDTs not nil, no
  insert or delete at a negative position) \<open>Sync\<close> never panics: it returns the
  \<^verbatim>\<open>GetAllNotes\<close> error when that call fails and a response otherwise.
\<close>

theorem Sync_storage_failure:
  "(getNoteFails s (Note_ID n) \<longrightarrow>
      syncNote pdq s t n clientID lastSync = (Fails FailedToGetServerNote, s))
   \<and> (fst (syncNote pdq s (now i) n (Req_ClientID req) (lastSyncOf req (Note_ID n))) = Fails e
        \<longrightarrow> syncLoop pdq s now i req (n # ns) cs = syncLoop pdq s now (Suc i) req ns cs)
   \<and> (fst (Sync pdq s now req) = Fails e' \<longrightarrow> e' = FailedToGetServerNotes \<and> getAllNotesFails s)
   \<and> ((\<forall>m\<in>set (Req_Notes req). getNoteFails s (Note_ID m)) \<and> \<not> getAllNotesFails s \<longrightarrow>
        (\<exists>resp. Sync pdq s now req = (Returns resp, s) \<and> Conflicts resp = []))
   \<and> (wfStore s \<and> (\<forall>m\<in>set (Req_Notes req). wfNote m) \<longrightarrow>
        (if getAllNotesFails s then fst (Sync pdq s now req) = Fails FailedToGetServerNotes
         else \<exists>resp. fst (Sync pdq s now req) = Returns resp))"
proof -
  have c3: "fst (Sync pdq s now req) = Fails e' \<longrightarrow>
              e' = FailedToGetServerNotes \<and> getAllNotesFails s"
    by (cases pdq s now req rule: Sync_cases) auto
  have c4: "\<exists>resp. Sync pdq s now req = (Returns resp, s) \<and> Conflicts resp = []"
    if "\<forall>m\<in>set (Req_Notes req). getNoteFails s (Note_ID m)" "\<not> getAllNotesFails s"
  proof -
    from that(1) have "syncLoop pdq s now 0 req (Req_Notes req) [] = (Inr [], s)"
      by (rule syncLoop_all_getFail)
    with that(2) show ?thesis
      by (cases pdq s now req rule: Sync_cases) auto
  qed
  have c5: "if getAllNotesFails s then fst (Sync pdq s now req) = Fails FailedToGetServerNotes
         else \<exists>resp. fst (Sync pdq s now req) = Returns resp"
    if "wfStore s" "\<forall>m\<in>set (Req_Notes req). wfNote m"
  proof -
    have "\<forall>p. r \<noteq> Inl p" if "syncLoop pdq s now 0 req (Req_Notes req) [] = (r, s')" for r s'
      using syncLoop_wf [OF \<open>wfStore s\<close> \<open>\<forall>m\<in>set (Req_Notes req). wfNote m\<close> that] .
    then show ?thesis
      by (cases pdq s now req rule: Sync_cases) auto
  qed
  from c3 c4 c5 syncLoop_skip [of pdq s now i n req e ns cs]
    syncNote_getFails [of s n pdq t clientID lastSync]
  show ?thesis by blast
qed

theorem Sync_storage_failure_witness:
  "getNoteFails storeGetFails (Note_ID clientConcurrent)
   \<and> syncNote noSwaps storeGetFails 7 clientConcurrent ''C'' None
       = (Fails FailedToGetServerNote, storeGetFails)
   \<and> syncLoop noSwaps storeGetFails clock7 0 request1 [clientConcurrent] []
       = syncLoop noSwaps storeGetFails clock7 1 request1 [] []
   \<and> \<not> getAllNotesFails storeGetFails
   \<and> (\<exists>resp. Sync noSwaps storeGetFails clock7 request1 = (Returns resp, storeGetFails)
          \<and> Conflicts resp = [])
   \<and> wfStore storeGetFails \<and> wfNote clientConcurrent
   \<and> fst (Sync noSwaps storeAllFail clock7 request1) = Fails FailedToGetServerNotes
   \<and> getAllNotesFails storeAllFail"
proof -
  have g: "getNoteFails storeGetFails (Note_ID clientConcurrent)"
    "\<not> getAllNotesFails storeGetFails" "getAllNotesFails storeAllFail"
    "getNoteFails storeAllFail (Note_ID clientConcurrent)"
    by (simp_all add: storeGetFails_def storeAllFail_def)
  have w: "wfStore storeGetFails" "wfStore storeAllFail"
    by (simp_all add: wfStore_def storeGetFails_def storeAllFail_def wf_samples)
  show ?thesis
    using g w wf_samples request1_fields
      Sync_storage_failure [of storeGetFails clientConcurrent noSwaps 7 "''C''" None
        clock7 0 request1 FailedToGetServerNote "[]" "[]" FailedToGetServerNotes]
      Sync_storage_failure [of storeAllFail clientConcurrent noSwaps 7 "''C''" None
        clock7 0 request1 FailedToGetServerNote "[]" "[]" FailedToGetServerNotes]
    by (simp add: clock7_def)
qed

text \<open>
  C10, as the claim states it, fails where the stored clock holds a negative counter
  for a key the client's clock lacks: \<open>Update\<close> leaves that counter alone, the client's
  clock reads 0 there, and the record reports two clocks that are concurrent. The reported
  counter is \<open>-3\<close>, the component-wise maximum would be 0.
\<close>

theorem conflict_clock_counterexample:
  "fst (syncNote noSwaps storeNeg 7 clientEmpty ''C'' None) =
     Returns (Some \<lparr>NoteID = ''n1'', ClientClock = Some [],
                     ServerClock = Some [(''A'', - 3), (''B'', 1)], Resolution = ''merged''\<rparr>)
   \<and> compareFlags (Some []) (Some [(''A'', - 3), (''B'', 1)]) = (True, True)
   \<and> vc_get (Some [(''A'', - 3), (''B'', 1)]) ''A'' = - 3
   \<and> max (vc_get (Some [(''A'', - 3), (''B'', 1)]) ''A'') (vc_get (Some []) ''A'') = 0"
  by code_simp

text \<open>
  C10, amended. The \<open>ServerClock\<close> of an emitted conflict record is the clock of the
  stored note after \<open>Update\<close> has absorbed the client's clock, the clock that is saved with
  the note, not the clock the comparison saw. When no counter of the stored clock is
  negative, that clock is the component-wise maximum of the two, the client's clock is
  below or equal to it at every key, and \<open>Compare\<close> of the two reported clocks never finds
  the client's clock greater at any key: they are not concurrent.
\<close>

theorem conflict_reports_merged_clock:
  assumes "syncNote pdq s now clientNote clientID lastSync = (Returns (Some conflict), s')"
  shows "\<exists>serverNote stored.
           Store_GetNote s (Note_ID clientNote) = Inr (Some serverNote)
         \<and> map_of (rows s') (Note_ID serverNote) = Some stored
         \<and> ServerClock conflict = Note_Clock stored
         \<and> Update (Note_Clock serverNote) (Note_Clock clientNote) = Inr (ServerClock conflict)
         \<and> ClientClock conflict = Note_Clock clientNote
         \<and> ((\<forall>k. 0 \<le> vc_get (Note_Clock serverNote) k) \<longrightarrow>
              (\<forall>k. vc_get (ServerClock conflict) k =
                     max (vc_get (Note_Clock serverNote) k) (vc_get (Note_Clock clientNote) k))
            \<and> (\<forall>k. vc_get (ClientClock conflict) k \<le> vc_get (ServerClock conflict) k)
            \<and> \<not> snd (compareFlags (ClientClock conflict) (ServerClock conflict))
            \<and> Compare (ClientClock conflict) (ServerClock conflict) \<noteq> 1)"
proof -
  from assms obtain serverNote nt where
    g: "Store_GetNote s (Note_ID clientNote) = Inr (Some serverNote)" and
    mg: "mergeIntoServer pdq serverNote clientNote now = Inr nt" and
    sv: "Store_SaveNote s nt = Inr s'" and
    c: "conflict = \<lparr>NoteID = Note_ID clientNote, ClientClock = Note_Clock clientNote,
                     ServerClock = Note_Clock nt, Resolution = ''merged''\<rparr>"
    by (auto simp: syncNote_def Let_def split: sum.splits option.splits if_splits)
  from mg obtain merged clock where
    up: "Update (Note_Clock serverNote) (Note_Clock clientNote) = Inr clock" and
    n: "nt = mergedNote serverNote merged clock now"
    unfolding mergeIntoServer_Inr by blast
  from n have nf: "Note_Clock nt = clock" "Note_ID nt = Note_ID serverNote"
    by (simp_all add: mergedNote_def)
  from Store_SaveNote_row [OF sv] nf obtain stored where
    st: "map_of (rows s') (Note_ID serverNote) = Some stored" "Note_Clock stored = clock"
    by auto
  from c nf have sc: "ServerClock conflict = clock" "ClientClock conflict = Note_Clock clientNote"
    by simp_all
  have nonneg: "(\<forall>k. vc_get (ServerClock conflict) k =
                     max (vc_get (Note_Clock serverNote) k) (vc_get (Note_Clock clientNote) k))
            \<and> (\<forall>k. vc_get (ClientClock conflict) k \<le> vc_get (ServerClock conflict) k)
            \<and> \<not> snd (compareFlags (ClientClock conflict) (ServerClock conflict))
            \<and> Compare (ClientClock conflict) (ServerClock conflict) \<noteq> 1"
    if h: "\<forall>k. 0 \<le> vc_get (Note_Clock serverNote) k"
  proof -
    have m: "vc_get (ServerClock conflict) k =
               max (vc_get (Note_Clock serverNote) k) (vc_get (Note_Clock clientNote) k)" for k
      using h sc up Update_max [of "Note_Clock serverNote" k "Note_Clock clientNote" clock]
      by simp
    then have le: "vc_get (ClientClock conflict) k \<le> vc_get (ServerClock conflict) k" for k
      using sc by simp
    then have ng: "\<not> snd (compareFlags (ClientClock conflict) (ServerClock conflict))"
      by (simp add: compareFlags_all not_less)
    then have "Compare (ClientClock conflict) (ServerClock conflict) \<noteq> 1"
      by (auto simp: Compare_def split: prod.splits)
    with m le ng show ?thesis by blast
  qed
  from g st sc up nonneg show ?thesis by auto
qed

theorem conflict_reports_merged_clock_witness:
  "syncNote noSwaps store1 7 clientConcurrent ''C'' None
     = (Returns (Some conflict1), store1Merged)
   \<and> (\<forall>k. 0 \<le> vc_get (Note_Clock serverNote1) k)
   \<and> Update (Note_Clock serverNote1) (Note_Clock clientConcurrent) = Inr (ServerClock conflict1)
   \<and> (\<forall>k. vc_get (ClientClock conflict1) k \<le> vc_get (ServerClock conflict1) k)
   \<and> Compare (ClientClock conflict1) (ServerClock conflict1) \<noteq> 1"
proof -
  note h = syncNote_store1
  have n: "\<forall>k. 0 \<le> vc_get (Note_Clock serverNote1) k"
    by (simp add: serverNote1_def vc_get_def)
  from conflict_reports_merged_clock [OF h] obtain serverNote where
    g: "Store_GetNote store1 (Note_ID clientConcurrent) = Inr (Some serverNote)" and
    u: "Update (Note_Clock serverNote) (Note_Clock clientConcurrent)
          = Inr (ServerClock conflict1)" and
    r: "(\<forall>k. 0 \<le> vc_get (Note_Clock serverNote) k) \<longrightarrow>
          (\<forall>k. vc_get (ClientClock conflict1) k \<le> vc_get (ServerClock conflict1) k)
          \<and> Compare (ClientClock conflict1) (ServerClock conflict1) \<noteq> 1"
    by blast
  from g get_store1 have "serverNote = serverNote1" by simp
  with h n u r show ?thesis by simp
qed

end
